theory Spec2Isabelle
  imports Main "HOL-Library.Char_ord" "HOL-Library.List_Lexorder" "HOL-Library.Multiset"
    "HOL-Library.Sublist"
begin

section \<open>The AOXC notary: scan, cursor and seal\<close>

text \<open>
  The repository holds two versions of one program: \<^verbatim>\<open>sentinel-ops/sentinel.py\<close>
  (v8.3.5, entry point \<^verbatim>\<open>run_supreme_notary\<close>) and
  \<^verbatim>\<open>INFRASTRUCTURE/40_SENTINEL/infra40_SentinelGuard.py\<close> (v8.4.0, entry point
  \<^verbatim>\<open>run_notary_cycle\<close>). Both read a cursor file, scan block ranges with
  \<^verbatim>\<open>eth_getLogs\<close>, write the cursor after every range, and seal the collected
  events into one certificate at the end.

  Everything outside the two files is a parameter of the model: the RPC node (liveness
  probe, head height, \<^verbatim>\<open>get_logs\<close>), the clock, SHA-256 and the \<^verbatim>\<open>ipfs\<close>
  binary are fields of an environment record. Every action on the outside world is
  recorded, in program order, in a list of effects; the files on disk are a store that the
  effects are replayed on. A process that is killed has performed a prefix of its effects.
\<close>

subsection \<open>JSON values and Python's \<^verbatim>\<open>json.dumps(..., sort_keys=True)\<close>\<close>

text \<open>
  An event is what \<^verbatim>\<open>json.loads(Web3.to_json(log))\<close> returns: a Python value built
  from \<^verbatim>\<open>None\<close>, booleans, integers, strings, lists and dicts with string keys. A
  dict is an association list in insertion order; Python's dicts never hold a key twice
  (\<open>keys_unique\<close> below). Floats do not occur in a log entry and are left out. A
  \<open>char\<close> stands for a code point below 256.
\<close>

datatype json =
    JNull
  | JBool bool
  | JInt int
  | JStr string
  | JArr "json list"
  | JObj "(string \<times> json) list"

fun keys_unique :: "json \<Rightarrow> bool" where
  "keys_unique (JArr xs) = list_all keys_unique xs"
| "keys_unique (JObj kvs) = (distinct (map fst kvs) \<and> list_all (\<lambda>(k, v). keys_unique v) kvs)"
| "keys_unique _ = True"

text \<open>
  Two values that differ only in the order in which their dicts (at any depth) list
  their entries. The order of list elements is kept.
\<close>

inductive same_upto_key_order :: "json \<Rightarrow> json \<Rightarrow> bool" where
  same_refl: "same_upto_key_order j j"
| same_arr: "list_all2 same_upto_key_order xs ys \<Longrightarrow> same_upto_key_order (JArr xs) (JArr ys)"
| same_obj: "list_all2 (rel_prod (=) same_upto_key_order) kvs kvs' \<Longrightarrow> mset kvs' = mset kvs''
     \<Longrightarrow> same_upto_key_order (JObj kvs) (JObj kvs'')"

definition digit_char :: "nat \<Rightarrow> char" where
  "digit_char d = ''0123456789abcdef'' ! d"

text \<open>Python's \<^verbatim>\<open>str\<close> on an integer: decimal digits, a minus sign when negative.\<close>

function str_nat :: "nat \<Rightarrow> string" where
  "str_nat n = (if n < 10 then [digit_char n] else str_nat (n div 10) @ [digit_char (n mod 10)])"
  by pat_completeness auto
termination
  by (relation "measure id") auto

definition str_int :: "int \<Rightarrow> string" where
  "str_int i = (if i < 0 then CHR ''-'' # str_nat (nat (- i)) else str_nat (nat i))"

text \<open>\<^verbatim>\<open>sep.join(parts)\<close>.\<close>

fun join :: "string \<Rightarrow> string list \<Rightarrow> string" where
  "join sep [] = []"
| "join sep [x] = x"
| "join sep (x # y # ys) = x @ sep @ join sep (y # ys)"

text \<open>
  The encoder's string escaping with \<^verbatim>\<open>ensure_ascii=True\<close> (the default): the quote
  and the backslash are escaped, the control characters LF, CR, TAB, BS and FF have short
  escapes, the printable ASCII range from space to tilde is copied, and every other code
  point is written as a backslash, \<^verbatim>\<open>u\<close> and four lowercase hex digits.
\<close>

definition hex4 :: "nat \<Rightarrow> string" where
  "hex4 n = [digit_char (n div 4096 mod 16), digit_char (n div 256 mod 16),
             digit_char (n div 16 mod 16), digit_char (n mod 16)]"

definition escape_char :: "char \<Rightarrow> string" where
  "escape_char c =
     (if c = CHR 0x22 then [CHR 0x5C, CHR 0x22]
      else if c = CHR 0x5C then [CHR 0x5C, CHR 0x5C]
      else if c = CHR 0x0A then [CHR 0x5C, CHR ''n'']
      else if c = CHR 0x0D then [CHR 0x5C, CHR ''r'']
      else if c = CHR 0x09 then [CHR 0x5C, CHR ''t'']
      else if c = CHR 0x08 then [CHR 0x5C, CHR ''b'']
      else if c = CHR 0x0C then [CHR 0x5C, CHR ''f'']
      else if CHR 0x20 \<le> c \<and> c \<le> CHR 0x7E then [c]
      else [CHR 0x5C, CHR ''u''] @ hex4 (of_char c))"

definition encode_basestring_ascii :: "string \<Rightarrow> string" where
  "encode_basestring_ascii s = [CHR 0x22] @ concat (map escape_char s) @ [CHR 0x22]"

text \<open>
  \<^verbatim>\<open>json.dumps(v, sort_keys=True)\<close> with the default separators \<^verbatim>\<open>", "\<close> and
  \<^verbatim>\<open>": "\<close>: the entries of every dict are sorted by key (strings compare by code
  point) before they are written.
\<close>

fun dumps :: "json \<Rightarrow> string" where
  "dumps JNull = ''null''"
| "dumps (JBool b) = (if b then ''true'' else ''false'')"
| "dumps (JInt i) = str_int i"
| "dumps (JStr s) = encode_basestring_ascii s"
| "dumps (JArr xs) = ''['' @ join '', '' (map dumps xs) @ '']''"
| "dumps (JObj kvs) =
     ''{'' @ join '', '' (map (\<lambda>(k, v). encode_basestring_ascii k @ '': '' @ dumps v)
                            (sort_key fst kvs)) @ ''}''"

text \<open>\<^verbatim>\<open>str.upper\<close> on the ASCII letters, which is all a hex digest holds.\<close>

definition upper_char :: "char \<Rightarrow> char" where
  "upper_char c =
     (case map_of (zip ''abcdefghijklmnopqrstuvwxyz'' ''ABCDEFGHIJKLMNOPQRSTUVWXYZ'') c of
        Some u \<Rightarrow> u
      | None \<Rightarrow> c)"

definition upper :: "string \<Rightarrow> string" where
  "upper s = map upper_char s"

subsection \<open>Sealing\<close>

text \<open>The \<^verbatim>\<open>IDENTITY\<close> table of v8.4.0 and the identity constants of v8.3.5.\<close>

definition IDENTITY_TAG :: string where
  "IDENTITY_TAG = ''AOXC-V2-AKDENIZ-SUPREME-NOTARY''"

definition IDENTITY_ORG :: string where
  "IDENTITY_ORG = ''AOXC DAO''"

definition IDENTITY_CONTACT :: string where
  "IDENTITY_CONTACT = ''aoxcdao@gmail.com''"

definition IDENTITY_GITHUB :: string where
  "IDENTITY_GITHUB = ''https://github.com/aoxc/AOXCDAO''"

definition OFFICIAL_X :: string where
  "OFFICIAL_X = ''https://x.com/AOXC_AKDENIZ''"

text \<open>
  \<^verbatim>\<open>seal_artifact(payload, start_block, end_block)\<close> of v8.4.0. The first argument
  \<open>sha256\<close> stands for \<^verbatim>\<open>lambda s: hashlib.sha256(s.encode()).hexdigest()\<close>, the
  second for the reading of \<^verbatim>\<open>datetime.utcnow().isoformat()\<close>.
\<close>

definition seal_artifact ::
    "(string \<Rightarrow> string) \<Rightarrow> string \<Rightarrow> json list \<Rightarrow> int \<Rightarrow> int \<Rightarrow> json \<times> string" where
  "seal_artifact sha256 utcnow payload start_block end_block =
     (let manifest_str = dumps (JArr payload);
          atomic_hash = upper (sha256 manifest_str);
          certificate = JObj [
            (''attestation'', JObj [
               (''fingerprint'', JStr atomic_hash),
               (''notary_seal'', JStr IDENTITY_TAG),
               (''authority'', JStr IDENTITY_ORG),
               (''repository'', JStr IDENTITY_GITHUB),
               (''contact'', JStr IDENTITY_CONTACT),
               (''timestamp'', JStr utcnow),
               (''range'', JStr (str_int start_block @ ''-'' @ str_int end_block))]),
            (''payload'', JArr payload)]
      in (certificate, atomic_hash))"

text \<open>
  Lines 99 to 112 of \<^verbatim>\<open>sentinel.py\<close> (v8.3.5), which seal inline: the manifest, the
  hash and \<^verbatim>\<open>final_bundle\<close>. \<open>unix_ts\<close> is the reading of
  \<^verbatim>\<open>int(time.time())\<close>.
\<close>

definition supreme_seal ::
    "(string \<Rightarrow> string) \<Rightarrow> int \<Rightarrow> json list \<Rightarrow> int \<Rightarrow> int \<Rightarrow> json \<times> string" where
  "supreme_seal sha256 unix_ts raw_vault last_block current_block =
     (let raw_manifest = dumps (JArr raw_vault);
          atomic_hash = upper (sha256 raw_manifest);
          final_bundle = JObj [
            (''attestation'', JObj [
               (''fingerprint_sha256'', JStr atomic_hash),
               (''notary_seal'', JStr IDENTITY_TAG),
               (''author'', JStr OFFICIAL_X),
               (''range'', JStr (str_int last_block @ ''-'' @ str_int current_block)),
               (''unix_ts'', JInt unix_ts),
               (''motto'', JStr ''In Code We Trust - AOXC Akdeniz'')]),
            (''raw_payload'', JArr raw_vault)]
      in (final_bundle, atomic_hash))"

text \<open>\<^verbatim>\<open>d[k]\<close> on a JSON dict, for reading a field of a certificate.\<close>

fun field :: "string \<Rightarrow> json \<Rightarrow> json option" where
  "field k (JObj kvs) = map_of kvs k"
| "field k _ = None"

subsection \<open>The outside world\<close>

text \<open>
  The result of building a connection to one URL and calling \<^verbatim>\<open>is_connected\<close>:
  true, false, or an exception.
\<close>

datatype probe = Connected | NotConnected | Raised

text \<open>
  The module constants \<^verbatim>\<open>BLOCK_STEP\<close>, \<^verbatim>\<open>RPC_NODES\<close> and
  \<^verbatim>\<open>GENESIS_BLOCK\<close> are passed to the entry points as a configuration, so that
  a property can be stated for any step and any list of endpoints; \<open>config_v840\<close>
  and \<open>config_v835\<close> hold the values of the two files.
\<close>

record config =
  block_step :: nat
  rpc_nodes :: "string list"
  genesis_block :: int

definition RPC_NODES :: "string list" where
  "RPC_NODES = [''https://xlayer.drpc.org'', ''https://rpc.xlayer.okx.com'']"

definition GENESIS_BLOCK :: int where
  "GENESIS_BLOCK = 52084000"

definition config_v840 :: config where
  "config_v840 = \<lparr>block_step = 70, rpc_nodes = RPC_NODES, genesis_block = GENESIS_BLOCK\<rparr>"

definition config_v835 :: config where
  "config_v835 = \<lparr>block_step = 85, rpc_nodes = RPC_NODES, genesis_block = GENESIS_BLOCK\<rparr>"

text \<open>
  \<open>get_logs\<close> answers \<^verbatim>\<open>w3.eth.get_logs\<close> for the watched addresses, each log already
  passed through \<^verbatim>\<open>json.loads(Web3.to_json(log))\<close>; \<open>Inl\<close> carries the text of a
  raised exception. \<open>time_time k\<close> is the \<open>k\<close>-th reading of
  \<^verbatim>\<open>int(time.time())\<close> in a run. \<open>ipfs_add\<close> gives the return code, standard
  output and standard error of \<^verbatim>\<open>ipfs add -Q\<close> on a file of the snapshot directory.
\<close>

record env =
  is_connected :: "string \<Rightarrow> probe"
  block_number :: int
  get_logs :: "int \<Rightarrow> int \<Rightarrow> string + json list"
  sha256_hexdigest :: "string \<Rightarrow> string"
  utcnow_isoformat :: string
  time_time :: "nat \<Rightarrow> int"
  ipfs_add :: "string \<Rightarrow> int \<times> string \<times> string"

text \<open>The directories of \<^verbatim>\<open>PATHS\<close>, below \<^verbatim>\<open>BASE_DIR\<close>.\<close>

datatype folder = SNAPSHOTS | LOGS

text \<open>
  What survives the process: the content of \<^verbatim>\<open>LAST_SCANNED_BLOCK\<close> (the integer
  that \<^verbatim>\<open>int(f.read().strip())\<close> reads back from what \<^verbatim>\<open>f.write(str(pointer))\<close>
  wrote; \<open>None\<close> when the file does not exist) and the JSON files written so far.
\<close>

record store =
  cursor_file :: "int option"
  files :: "folder \<times> string \<Rightarrow> json option"

text \<open>One constructor for each line that the two programs print.\<close>

datatype message =
    SessionBanner string nat int int
  | Progress int int nat
  | NoNewData
  | SealingComplete string
  | ArtifactSaved string
  | IntegrityBreach string
  | Activated int int
  | Syncing int int nat
  | NoNewDataFound int
  | SealingStarted
  | SealDone string
  | IpfsCid string
  | IpfsError string
  | CriticalError string

datatype effect =
    Probe string
  | WriteCursor int
  | GetLogs int int
  | Print message
  | Sleep
  | WriteJson folder string json
  | IpfsAdd folder string

text \<open>
  How a run ends: \<^verbatim>\<open>sys.exit\<close> with a message (the process terminates with
  exit status 1), or a normal return.
\<close>

datatype exit = SystemExit | Returned

fun exec_effect :: "store \<Rightarrow> effect \<Rightarrow> store" where
  "exec_effect s (WriteCursor v) = s\<lparr>cursor_file := Some v\<rparr>"
| "exec_effect s (WriteJson d n c) = s\<lparr>files := (files s)((d, n) \<mapsto> c)\<rparr>"
| "exec_effect s _ = s"

definition exec :: "effect list \<Rightarrow> store \<Rightarrow> store" where
  "exec tr s = foldl exec_effect s tr"

text \<open>Projections of a list of effects.\<close>

definition requests :: "effect list \<Rightarrow> (int \<times> int) list" where
  "requests tr = concat (map (\<lambda>e. case e of GetLogs a b \<Rightarrow> [(a, b)] | _ \<Rightarrow> []) tr)"

definition cursor_writes :: "effect list \<Rightarrow> int list" where
  "cursor_writes tr = concat (map (\<lambda>e. case e of WriteCursor v \<Rightarrow> [v] | _ \<Rightarrow> []) tr)"

definition cert_writes :: "effect list \<Rightarrow> (folder \<times> string \<times> json) list" where
  "cert_writes tr = concat (map (\<lambda>e. case e of WriteJson d n c \<Rightarrow> [(d, n, c)] | _ \<Rightarrow> []) tr)"

definition publishes :: "effect list \<Rightarrow> (folder \<times> string) list" where
  "publishes tr = concat (map (\<lambda>e. case e of IpfsAdd d n \<Rightarrow> [(d, n)] | _ \<Rightarrow> []) tr)"

definition probes :: "effect list \<Rightarrow> string list" where
  "probes tr = concat (map (\<lambda>e. case e of Probe u \<Rightarrow> [u] | _ \<Rightarrow> []) tr)"

definition printed :: "effect list \<Rightarrow> message list" where
  "printed tr = concat (map (\<lambda>e. case e of Print m \<Rightarrow> [m] | _ \<Rightarrow> []) tr)"

subsection \<open>Start-up and connection\<close>

text \<open>
  \<^verbatim>\<open>initialize_industrial_structure\<close> (v8.4.0) and \<^verbatim>\<open>initialize_system\<close>
  (v8.3.5): the cursor file is created with the genesis block when it does not exist.
  The creation of the two directories is not modelled.
\<close>

definition initialize_industrial_structure :: "config \<Rightarrow> store \<Rightarrow> effect list" where
  "initialize_industrial_structure cfg s =
     (if cursor_file s = None then [WriteCursor (genesis_block cfg)] else [])"

definition initialize_system :: "config \<Rightarrow> store \<Rightarrow> effect list" where
  "initialize_system cfg s =
     (if cursor_file s = None then [WriteCursor (genesis_block cfg)] else [])"

text \<open>
  \<^verbatim>\<open>get_supreme_provider\<close> (v8.4.0): the loop over the URLs returns the first
  connection whose probe is true; a false probe falls through to the next URL and an
  exception is caught and continues with it. The result \<open>None\<close> is the fall out of the
  loop, where the caller reaches \<^verbatim>\<open>sys.exit\<close>.
\<close>

fun get_supreme_provider :: "(string \<Rightarrow> probe) \<Rightarrow> string list \<Rightarrow> effect list \<times> string option" where
  "get_supreme_provider pr [] = ([], None)"
| "get_supreme_provider pr (url # urls) =
     (case pr url of
        Connected \<Rightarrow> ([Probe url], Some url)
      | NotConnected \<Rightarrow>
          (let rest = get_supreme_provider pr urls in (Probe url # fst rest, snd rest))
      | Raised \<Rightarrow>
          (let rest = get_supreme_provider pr urls in (Probe url # fst rest, snd rest)))"

text \<open>\<^verbatim>\<open>setup_ghost_rpc\<close> (v8.3.5), the same loop with a bare \<^verbatim>\<open>except\<close>.\<close>

fun setup_ghost_rpc :: "(string \<Rightarrow> probe) \<Rightarrow> string list \<Rightarrow> effect list \<times> string option" where
  "setup_ghost_rpc pr [] = ([], None)"
| "setup_ghost_rpc pr (url # urls) =
     (case pr url of
        Connected \<Rightarrow> ([Probe url], Some url)
      | NotConnected \<Rightarrow>
          (let rest = setup_ghost_rpc pr urls in (Probe url # fst rest, snd rest))
      | Raised \<Rightarrow>
          (let rest = setup_ghost_rpc pr urls in (Probe url # fst rest, snd rest)))"

subsection \<open>The scan loop\<close>

text \<open>
  The \<^verbatim>\<open>while pointer < current_head\<close> loop, which the two files share up to the
  names of its variables, the step and the progress line (the parameter \<open>line\<close>):
  \<^verbatim>\<open>
    while pointer < current_head:
        limit = min(pointer + BLOCK_STEP, current_head)
        logs = w3.eth.get_logs({'fromBlock': pointer, 'toBlock': limit, ...})
        for log in logs: vault.append(json.loads(Web3.to_json(log)))
        print(...)
        pointer = limit + 1
        with open(PATHS["CURSOR"], "w") as f: f.write(str(pointer))
        time.sleep(...)
  \<close>
  The result is the list of effects together with the vault at loop exit, or the text of
  the exception that \<^verbatim>\<open>get_logs\<close> raised.
\<close>

function scan_loop ::
    "(int \<Rightarrow> int \<Rightarrow> nat \<Rightarrow> message) \<Rightarrow> nat \<Rightarrow> (int \<Rightarrow> int \<Rightarrow> string + json list) \<Rightarrow> int \<Rightarrow>
     int \<Rightarrow> json list \<Rightarrow> effect list \<times> (string + json list)" where
  "scan_loop line step gl current_head pointer vault =
     (if pointer < current_head then
        (let limit = min (pointer + int step) current_head in
         case gl pointer limit of
           Inl e \<Rightarrow> ([GetLogs pointer limit], Inl e)
         | Inr logs \<Rightarrow>
             (let vault' = vault @ logs;
                  rest = scan_loop line step gl current_head (limit + 1) vault'
              in (GetLogs pointer limit # Print (line pointer limit (length vault')) #
                  WriteCursor (limit + 1) # Sleep # fst rest, snd rest)))
      else ([], Inr vault))"
  by pat_completeness auto
termination
  by (relation "measure (\<lambda>(line, step, gl, current_head, pointer, vault). nat (current_head - pointer))")
     auto

text \<open>
  The ranges the loop asks for when no request fails, written down from the loop's
  arithmetic alone.
\<close>

function ranges :: "nat \<Rightarrow> int \<Rightarrow> int \<Rightarrow> (int \<times> int) list" where
  "ranges step pointer current_head =
     (if pointer < current_head then
        (pointer, min (pointer + int step) current_head) #
          ranges step (min (pointer + int step) current_head + 1) current_head
      else [])"
  by pat_completeness auto
termination
  by (relation "measure (\<lambda>(step, pointer, current_head). nat (current_head - pointer))") auto

subsection \<open>The two entry points\<close>

definition start_cursor :: "config \<Rightarrow> store \<Rightarrow> int" where
  "start_cursor cfg s = (case cursor_file s of None \<Rightarrow> genesis_block cfg | Some c \<Rightarrow> c)"

text \<open>
  \<^verbatim>\<open>run_notary_cycle\<close> (v8.4.0). The cursor is read after the initialisation, so a
  missing file reads as the genesis block. The \<^verbatim>\<open>try\<close> block covers the loop, the
  seal and the write of the certificate; its handler prints the integrity-breach line.
  Inside the block only \<^verbatim>\<open>get_logs\<close> is taken to raise; the head height is read
  before it. The third argument of the banner is \<^verbatim>\<open>len(TARGETS)\<close>.
\<close>

definition run_notary_cycle :: "config \<Rightarrow> env \<Rightarrow> store \<Rightarrow> exit \<times> effect list" where
  "run_notary_cycle cfg e s =
     (let init = initialize_industrial_structure cfg s;
          conn = get_supreme_provider (is_connected e) (rpc_nodes cfg)
      in case snd conn of
           None \<Rightarrow>
             (SystemExit, init @ fst conn)
         | Some url \<Rightarrow>
             (let cursor = start_cursor cfg s;
                  current_head = block_number e;
                  banner = [Print (SessionBanner url 3 cursor current_head)];
                  scan = scan_loop Progress (block_step cfg) (get_logs e) current_head cursor []
              in case snd scan of
                   Inl err \<Rightarrow>
                     (Returned, init @ fst conn @ banner @ fst scan @ [Print (IntegrityBreach err)])
                 | Inr vault \<Rightarrow>
                     if vault = [] then
                       (Returned, init @ fst conn @ banner @ fst scan @ [Print NoNewData])
                     else
                       (let sealed = seal_artifact (sha256_hexdigest e) (utcnow_isoformat e)
                                       vault cursor current_head;
                            certificate = fst sealed;
                            final_hash = snd sealed;
                            file_name = ''AOXC_CERT_'' @ str_int (time_time e 0) @ ''_'' @
                                        take 8 final_hash @ ''.json''
                        in (Returned,
                            init @ fst conn @ banner @ fst scan @
                            [WriteJson SNAPSHOTS file_name certificate,
                             Print (SealingComplete final_hash),
                             Print (ArtifactSaved file_name)]))))"

text \<open>\<^verbatim>\<open>cid = proc.stdout.strip()\<close>: white space is cut off at both ends.\<close>

definition is_space :: "char \<Rightarrow> bool" where
  "is_space c = (c \<in> set [CHR 0x20, CHR 0x09, CHR 0x0A, CHR 0x0B, CHR 0x0C, CHR 0x0D])"

definition strip :: "string \<Rightarrow> string" where
  "strip s = rev (dropWhile is_space (rev (dropWhile is_space s)))"

text \<open>
  \<^verbatim>\<open>run_supreme_notary\<close> (v8.3.5). It reads the clock twice, for the attestation
  and for the file name, and hands the written file to \<^verbatim>\<open>ipfs add -Q\<close>.
\<close>

definition run_supreme_notary :: "config \<Rightarrow> env \<Rightarrow> store \<Rightarrow> exit \<times> effect list" where
  "run_supreme_notary cfg e s =
     (let init = initialize_system cfg s;
          conn = setup_ghost_rpc (is_connected e) (rpc_nodes cfg)
      in case snd conn of
           None \<Rightarrow> (SystemExit, init @ fst conn)
         | Some url \<Rightarrow>
             (let last_block = start_cursor cfg s;
                  current_block = block_number e;
                  banner = [Print (Activated last_block current_block)];
                  scan = scan_loop Syncing (block_step cfg) (get_logs e) current_block last_block []
              in case snd scan of
                   Inl err \<Rightarrow>
                     (Returned, init @ fst conn @ banner @ fst scan @ [Print (CriticalError err)])
                 | Inr raw_vault \<Rightarrow>
                     if raw_vault = [] then
                       (Returned,
                        init @ fst conn @ banner @ fst scan @ [Print (NoNewDataFound current_block)])
                     else
                       (let sealed = supreme_seal (sha256_hexdigest e) (time_time e 0)
                                       raw_vault last_block current_block;
                            final_bundle = fst sealed;
                            atomic_hash = snd sealed;
                            f_name = ''Supreme_Sealed_'' @ str_int (time_time e 1) @ ''.json'';
                            proc = ipfs_add e f_name
                        in (Returned,
                            init @ fst conn @ banner @ fst scan @
                            [Print SealingStarted,
                             WriteJson SNAPSHOTS f_name final_bundle,
                             IpfsAdd SNAPSHOTS f_name] @
                            (if fst proc = 0
                             then [Print (SealDone atomic_hash),
                                   Print (IpfsCid (strip (fst (snd proc))))]
                             else [Print (IpfsError (snd (snd proc)))])))))"

subsection \<open>Notions used to state the properties\<close>

text \<open>
  The files after a sequence of later runs. Each run meets its own environment and is
  cut after \<open>n\<close> effects, as a kill of the process does; a run is complete when
  \<open>n\<close> is at least the length of its list of effects.
\<close>

fun lifetime ::
    "(config \<Rightarrow> env \<Rightarrow> store \<Rightarrow> exit \<times> effect list) \<Rightarrow> config \<Rightarrow> (env \<times> nat) list \<Rightarrow> store \<Rightarrow>
     effect list" where
  "lifetime run cfg [] s = []"
| "lifetime run cfg ((e, n) # es) s =
     (let tr = take n (snd (run cfg e s)) in tr @ lifetime run cfg es (exec tr s))"

text \<open>A field of the attestation block of a certificate.\<close>

definition attestation_field :: "string \<Rightarrow> json \<Rightarrow> json option" where
  "attestation_field k c = (case field ''attestation'' c of Some a \<Rightarrow> field k a | None \<Rightarrow> None)"

text \<open>
  The file name pattern of the specification: the name ends with an underscore, the Unix
  time, an underscore, a non-empty prefix of the fingerprint and \<^verbatim>\<open>.json\<close>.
\<close>

definition matches_name_pattern :: "string \<Rightarrow> int \<Rightarrow> string \<Rightarrow> bool" where
  "matches_name_pattern name t fp =
     list_ex (\<lambda>k. suffix (''_'' @ str_int t @ ''_'' @ take k fp @ ''.json'') name)
       [1..<Suc (length fp)]"

text \<open>
  What each entry point does after its scan loop, as a function of the loop's result:
  the tail of the \<^verbatim>\<open>try\<close> block or its handler.
\<close>

definition cycle_epilogue :: "config \<Rightarrow> env \<Rightarrow> store \<Rightarrow> effect list" where
  "cycle_epilogue cfg e s =
     (case snd (scan_loop Progress (block_step cfg) (get_logs e) (block_number e) (start_cursor cfg s) []) of
        Inl err \<Rightarrow> [Print (IntegrityBreach err)]
      | Inr vault \<Rightarrow>
          if vault = [] then [Print NoNewData]
          else [WriteJson SNAPSHOTS
                  (''AOXC_CERT_'' @ str_int (time_time e 0) @ ''_'' @
                   take 8 (snd (seal_artifact (sha256_hexdigest e) (utcnow_isoformat e) vault
                                  (start_cursor cfg s) (block_number e))) @ ''.json'')
                  (fst (seal_artifact (sha256_hexdigest e) (utcnow_isoformat e) vault
                          (start_cursor cfg s) (block_number e))),
                Print (SealingComplete (snd (seal_artifact (sha256_hexdigest e) (utcnow_isoformat e)
                          vault (start_cursor cfg s) (block_number e)))),
                Print (ArtifactSaved
                  (''AOXC_CERT_'' @ str_int (time_time e 0) @ ''_'' @
                   take 8 (snd (seal_artifact (sha256_hexdigest e) (utcnow_isoformat e) vault
                                  (start_cursor cfg s) (block_number e))) @ ''.json''))])"

definition supreme_epilogue :: "config \<Rightarrow> env \<Rightarrow> store \<Rightarrow> effect list" where
  "supreme_epilogue cfg e s =
     (case snd (scan_loop Syncing (block_step cfg) (get_logs e) (block_number e) (start_cursor cfg s) []) of
        Inl err \<Rightarrow> [Print (CriticalError err)]
      | Inr raw_vault \<Rightarrow>
          if raw_vault = [] then [Print (NoNewDataFound (block_number e))]
          else [Print SealingStarted,
                WriteJson SNAPSHOTS (''Supreme_Sealed_'' @ str_int (time_time e 1) @ ''.json'')
                  (fst (supreme_seal (sha256_hexdigest e) (time_time e 0) raw_vault
                          (start_cursor cfg s) (block_number e))),
                IpfsAdd SNAPSHOTS (''Supreme_Sealed_'' @ str_int (time_time e 1) @ ''.json'')] @
               (if fst (ipfs_add e (''Supreme_Sealed_'' @ str_int (time_time e 1) @ ''.json'')) = 0
                then [Print (SealDone (snd (supreme_seal (sha256_hexdigest e) (time_time e 0) raw_vault
                          (start_cursor cfg s) (block_number e)))),
                      Print (IpfsCid (strip (fst (snd (ipfs_add e
                          (''Supreme_Sealed_'' @ str_int (time_time e 1) @ ''.json''))))))]
                else [Print (IpfsError (snd (snd (ipfs_add e
                          (''Supreme_Sealed_'' @ str_int (time_time e 1) @ ''.json'')))))]))"

text \<open>Concrete inputs on which the properties are evaluated.\<close>

definition example_event :: "int \<Rightarrow> json" where
  "example_event i =
     JObj [(''logIndex'', JInt i),
           (''address'', JStr ''0x97Bdd1fD1CAF756e00eFD42eBa9406821465B365''),
           (''topics'', JArr [JStr ''0xddf252ad'']),
           (''removed'', JBool False)]"

definition example_event_reordered :: "int \<Rightarrow> json" where
  "example_event_reordered i =
     JObj [(''removed'', JBool False),
           (''address'', JStr ''0x97Bdd1fD1CAF756e00eFD42eBa9406821465B365''),
           (''logIndex'', JInt i),
           (''topics'', JArr [JStr ''0xddf252ad''])]"

definition example_env :: "int \<Rightarrow> env" where
  "example_env head =
     \<lparr>is_connected = (\<lambda>u. if u = ''https://xlayer.drpc.org'' then Raised else Connected),
      block_number = head,
      get_logs = (\<lambda>a b. if a = 1000
                          then Inr [example_event 0, example_event 1, example_event 2]
                          else Inr []),
      sha256_hexdigest = (\<lambda>s. ''9f86d081884c7d65''),
      utcnow_isoformat = ''2024-01-01T00:00:00'',
      time_time = (\<lambda>k. 1700000000 + int k),
      ipfs_add = (\<lambda>p. (0, ''QmExample'', []))\<rparr>"

definition example_store :: store where
  "example_store = \<lparr>cursor_file = Some 1000, files = Map.empty\<rparr>"

definition example_config :: config where
  "example_config = \<lparr>block_step = 100, rpc_nodes = RPC_NODES, genesis_block = GENESIS_BLOCK\<rparr>"

section \<open>Properties\<close>

subsection \<open>Effects, the connectors and the scan loop\<close>

declare scan_loop.simps [simp del]
declare ranges.simps [simp del]

lemma requests_simps [simp]:
  "requests [] = []"
  "requests (tr @ tr') = requests tr @ requests tr'"
  "requests (GetLogs a b # tr) = (a, b) # requests tr"
  "requests (Probe u # tr) = requests tr"
  "requests (WriteCursor v # tr) = requests tr"
  "requests (Print m # tr) = requests tr"
  "requests (Sleep # tr) = requests tr"
  "requests (WriteJson d n c # tr) = requests tr"
  "requests (IpfsAdd d n # tr) = requests tr"
  by (simp_all add: requests_def)

lemma cursor_writes_simps [simp]:
  "cursor_writes [] = []"
  "cursor_writes (tr @ tr') = cursor_writes tr @ cursor_writes tr'"
  "cursor_writes (WriteCursor v # tr) = v # cursor_writes tr"
  "cursor_writes (Probe u # tr) = cursor_writes tr"
  "cursor_writes (GetLogs a b # tr) = cursor_writes tr"
  "cursor_writes (Print m # tr) = cursor_writes tr"
  "cursor_writes (Sleep # tr) = cursor_writes tr"
  "cursor_writes (WriteJson d n c # tr) = cursor_writes tr"
  "cursor_writes (IpfsAdd d n # tr) = cursor_writes tr"
  by (simp_all add: cursor_writes_def)

lemma cert_writes_simps [simp]:
  "cert_writes [] = []"
  "cert_writes (tr @ tr') = cert_writes tr @ cert_writes tr'"
  "cert_writes (WriteJson d n c # tr) = (d, n, c) # cert_writes tr"
  "cert_writes (Probe u # tr) = cert_writes tr"
  "cert_writes (GetLogs a b # tr) = cert_writes tr"
  "cert_writes (Print m # tr) = cert_writes tr"
  "cert_writes (Sleep # tr) = cert_writes tr"
  "cert_writes (WriteCursor v # tr) = cert_writes tr"
  "cert_writes (IpfsAdd d n # tr) = cert_writes tr"
  by (simp_all add: cert_writes_def)

lemma publishes_simps [simp]:
  "publishes [] = []"
  "publishes (tr @ tr') = publishes tr @ publishes tr'"
  "publishes (IpfsAdd d n # tr) = (d, n) # publishes tr"
  "publishes (Probe u # tr) = publishes tr"
  "publishes (GetLogs a b # tr) = publishes tr"
  "publishes (Print m # tr) = publishes tr"
  "publishes (Sleep # tr) = publishes tr"
  "publishes (WriteCursor v # tr) = publishes tr"
  "publishes (WriteJson d n c # tr) = publishes tr"
  by (simp_all add: publishes_def)

lemma probes_simps [simp]:
  "probes [] = []"
  "probes (tr @ tr') = probes tr @ probes tr'"
  "probes (Probe u # tr) = u # probes tr"
  "probes (IpfsAdd d n # tr) = probes tr"
  "probes (GetLogs a b # tr) = probes tr"
  "probes (Print m # tr) = probes tr"
  "probes (Sleep # tr) = probes tr"
  "probes (WriteCursor v # tr) = probes tr"
  "probes (WriteJson d n c # tr) = probes tr"
  by (simp_all add: probes_def)

lemma printed_simps [simp]:
  "printed [] = []"
  "printed (tr @ tr') = printed tr @ printed tr'"
  "printed (Print m # tr) = m # printed tr"
  "printed (IpfsAdd d n # tr) = printed tr"
  "printed (GetLogs a b # tr) = printed tr"
  "printed (Probe u # tr) = printed tr"
  "printed (Sleep # tr) = printed tr"
  "printed (WriteCursor v # tr) = printed tr"
  "printed (WriteJson d n c # tr) = printed tr"
  by (simp_all add: printed_def)

lemma exec_simps [simp]:
  "exec [] s = s"
  "exec (x # tr) s = exec tr (exec_effect s x)"
  "exec (tr @ tr') s = exec tr' (exec tr s)"
  by (simp_all add: exec_def)

lemma cursor_file_exec:
  "cursor_file (exec tr s) =
     (if cursor_writes tr = [] then cursor_file s else Some (last (cursor_writes tr)))"
proof (induction tr arbitrary: s)
  case Nil
  then show ?case by simp
next
  case (Cons x tr)
  then show ?case by (cases x) simp_all
qed

lemma files_exec: "cert_writes tr = [] \<Longrightarrow> files (exec tr s) = files s"
proof (induction tr arbitrary: s)
  case Nil
  then show ?case by simp
next
  case (Cons x tr)
  then show ?case by (cases x) simp_all
qed

lemma connect_same: "setup_ghost_rpc pr urls = get_supreme_provider pr urls"
  by (induction urls) (auto split: probe.splits)

lemma connect_all_fail:
  "\<forall>u\<in>set urls. pr u \<noteq> Connected \<Longrightarrow> get_supreme_provider pr urls = (map Probe urls, None)"
  by (induction urls) (auto split: probe.splits)

lemma connect_first_pass:
  "i < length urls \<Longrightarrow> pr (urls ! i) = Connected \<Longrightarrow> \<forall>j<i. pr (urls ! j) \<noteq> Connected \<Longrightarrow>
   get_supreme_provider pr urls = (map Probe (take (Suc i) urls), Some (urls ! i))"
proof (induction urls arbitrary: i)
  case Nil
  then show ?case by simp
next
  case (Cons u urls)
  show ?case
  proof (cases i)
    case 0
    with Cons.prems show ?thesis by simp
  next
    case (Suc k)
    have "pr u \<noteq> Connected" using Cons.prems(3) Suc by auto
    moreover have "get_supreme_provider pr urls = (map Probe (take (Suc k) urls), Some (urls ! k))"
    proof (rule Cons.IH)
      show "k < length urls" using Cons.prems(1) Suc by simp
      show "pr (urls ! k) = Connected" using Cons.prems(2) Suc by simp
      show "\<forall>j<k. pr (urls ! j) \<noteq> Connected"
      proof (intro allI impI)
        fix j assume "j < k"
        then have "Suc j < i" using Suc by simp
        with Cons.prems(3) have "pr ((u # urls) ! Suc j) \<noteq> Connected" by blast
        then show "pr (urls ! j) \<noteq> Connected" by simp
      qed
    qed
    ultimately show ?thesis using Suc by (cases "pr u") simp_all
  qed
qed

lemma connect_trace:
  "cursor_writes (fst (get_supreme_provider pr urls)) = []"
  "requests (fst (get_supreme_provider pr urls)) = []"
  "cert_writes (fst (get_supreme_provider pr urls)) = []"
  "publishes (fst (get_supreme_provider pr urls)) = []"
  by (induction urls; simp add: Let_def split: probe.splits)+

lemma scan_done: "\<not> p < h \<Longrightarrow> scan_loop line step gl h p v = ([], Inr v)"
  by (simp add: scan_loop.simps)

lemma scan_fail:
  "p < h \<Longrightarrow> gl p (min (p + int step) h) = Inl err \<Longrightarrow>
   scan_loop line step gl h p v = ([GetLogs p (min (p + int step) h)], Inl err)"
  by (subst scan_loop.simps) simp

lemma scan_ok:
  "p < h \<Longrightarrow> gl p (min (p + int step) h) = Inr logs \<Longrightarrow>
   scan_loop line step gl h p v =
     (GetLogs p (min (p + int step) h) #
      Print (line p (min (p + int step) h) (length (v @ logs))) #
      WriteCursor (min (p + int step) h + 1) # Sleep #
      fst (scan_loop line step gl h (min (p + int step) h + 1) (v @ logs)),
      snd (scan_loop line step gl h (min (p + int step) h + 1) (v @ logs)))"
  by (subst scan_loop.simps) (simp add: Let_def)

lemma scan_cases [case_names finished failed fetched]:
  assumes "\<not> p < h \<Longrightarrow> P"
    and "\<And>err. p < h \<Longrightarrow> gl p (min (p + int step) h) = Inl err \<Longrightarrow> P"
    and "\<And>logs. p < h \<Longrightarrow> gl p (min (p + int step) h) = Inr logs \<Longrightarrow> P"
  shows P
  using assms by (cases "p < h"; cases "gl p (min (p + int step) h)") auto

lemma scan_quiet:
  "cert_writes (fst (scan_loop line step gl h p v)) = [] \<and>
   publishes (fst (scan_loop line step gl h p v)) = [] \<and>
   probes (fst (scan_loop line step gl h p v)) = []"
proof (induction line step gl h p v rule: scan_loop.induct)
  case (1 line step gl h p v)
  show ?case
  proof (cases rule: scan_cases[where p=p and h=h and gl=gl and step=step])
    case finished
    then show ?thesis by (simp add: scan_done)
  next
    case (failed err)
    then show ?thesis by (simp add: scan_fail)
  next
    case ok: (fetched logs)
    with "1.IH"[OF ok(1) refl ok(2) refl] show ?thesis by (simp add: scan_ok)
  qed
qed

lemma scan_writes_increase:
  "sorted_wrt (<) (p # cursor_writes (fst (scan_loop line step gl h p v)))"
proof (induction line step gl h p v rule: scan_loop.induct)
  case (1 line step gl h p v)
  show ?case
  proof (cases rule: scan_cases[where p=p and h=h and gl=gl and step=step])
    case finished
    then show ?thesis by (simp add: scan_done)
  next
    case (failed err)
    then show ?thesis by (simp add: scan_fail)
  next
    case ok: (fetched logs)
    have "sorted_wrt (<) ((min (p + int step) h + 1) #
            cursor_writes (fst (scan_loop line step gl h (min (p + int step) h + 1) (v @ logs))))"
      using "1.IH"[OF ok(1) refl ok(2) refl] .
    moreover have "p < min (p + int step) h + 1" using ok(1) by simp
    ultimately show ?thesis using ok by (force simp: scan_ok)
  qed
qed

lemma scan_requests_from:
  "(a, b) \<in> set (requests (fst (scan_loop line step gl h p v))) \<Longrightarrow> p \<le> a \<and> a \<le> b \<and> b \<le> h"
proof (induction line step gl h p v rule: scan_loop.induct)
  case (1 line step gl h p v)
  show ?case
  proof (cases rule: scan_cases[where p=p and h=h and gl=gl and step=step])
    case finished
    with "1.prems" show ?thesis by (simp add: scan_done)
  next
    case (failed err)
    with "1.prems" show ?thesis by (auto simp: scan_fail)
  next
    case ok: (fetched logs)
    from "1.prems" ok
    consider "a = p \<and> b = min (p + int step) h"
      | "(a, b) \<in> set (requests (fst (scan_loop line step gl h (min (p + int step) h + 1) (v @ logs))))"
      by (auto simp: scan_ok)
    then show ?thesis
    proof cases
      case 1
      with ok(1) show ?thesis by auto
    next
      case 2
      from "1.IH"[OF ok(1) refl ok(2) refl 2] ok(1) show ?thesis by auto
    qed
  qed
qed

lemma scan_cursor_at_request:
  "fst (scan_loop line step gl h p v) = pre @ GetLogs a b # post \<Longrightarrow>
   last (p # cursor_writes pre) = a"
proof (induction line step gl h p v arbitrary: pre rule: scan_loop.induct)
  case (1 line step gl h p v)
  show ?case
  proof (cases rule: scan_cases[where p=p and h=h and gl=gl and step=step])
    case finished
    with "1.prems" show ?thesis by (simp add: scan_done)
  next
    case (failed err)
    with "1.prems" show ?thesis by (auto simp: scan_fail Cons_eq_append_conv)
  next
    case ok: (fetched logs)
    let ?l = "min (p + int step) h"
    let ?rest = "fst (scan_loop line step gl h (?l + 1) (v @ logs))"
    from "1.prems" ok
    have eq: "GetLogs p ?l # Print (line p ?l (length (v @ logs))) # WriteCursor (?l + 1) # Sleep # ?rest
              = pre @ GetLogs a b # post"
      by (simp add: scan_ok)
    then consider "pre = [] \<and> a = p"
      | pre' where "pre = GetLogs p ?l # Print (line p ?l (length (v @ logs))) # WriteCursor (?l + 1) # Sleep # pre'"
          "?rest = pre' @ GetLogs a b # post"
      by (auto simp: Cons_eq_append_conv)
    then show ?thesis
    proof cases
      case 1
      then show ?thesis by simp
    next
      case 2
      from "1.IH"[OF ok(1) refl ok(2) refl 2(2)] 2(1) show ?thesis by simp
    qed
  qed
qed

lemma scan_all_empty:
  "\<forall>(a, b)\<in>set (ranges step p h). gl a b = Inr [] \<Longrightarrow>
   snd (scan_loop line step gl h p v) = Inr v \<and>
   requests (fst (scan_loop line step gl h p v)) = ranges step p h"
proof (induction line step gl h p v rule: scan_loop.induct)
  case (1 line step gl h p v)
  show ?case
  proof (cases "p < h")
    case False
    then show ?thesis by (simp add: scan_done ranges.simps)
  next
    case True
    let ?l = "min (p + int step) h"
    have rs: "ranges step p h = (p, ?l) # ranges step (?l + 1) h"
      using True by (subst ranges.simps) simp
    have g: "gl p ?l = Inr []" using "1.prems" rs by simp
    have "\<forall>(a, b)\<in>set (ranges step (?l + 1) h). gl a b = Inr []" using "1.prems" rs by simp
    from "1.IH"[OF True refl g refl this] show ?thesis
      using True g rs by (simp add: scan_ok)
  qed
qed

lemma ranges_stop: "\<not> p < h \<Longrightarrow> ranges step p h = []"
  by (simp add: ranges.simps)

lemma ranges_go:
  "p < h \<Longrightarrow> ranges step p h =
     (p, min (p + int step) h) # ranges step (min (p + int step) h + 1) h"
  by (subst ranges.simps) simp

lemma ranges_bounds:
  "(a, b) \<in> set (ranges step p h) \<Longrightarrow> p \<le> a \<and> a \<le> b \<and> b \<le> h \<and> b - a \<le> int step"
proof (induction step p h rule: ranges.induct)
  case (1 step p h)
  show ?case
  proof (cases "p < h")
    case False
    with "1.prems" show ?thesis by (simp add: ranges_stop)
  next
    case True
    from "1.prems" True
    consider "a = p \<and> b = min (p + int step) h"
      | "(a, b) \<in> set (ranges step (min (p + int step) h + 1) h)"
      by (auto simp: ranges_go)
    then show ?thesis
    proof cases
      case 1
      with True show ?thesis by auto
    next
      case 2
      from "1.IH"[OF True 2] True show ?thesis by auto
    qed
  qed
qed

lemma ranges_contiguous:
  "Suc i < length (ranges step p h) \<Longrightarrow>
   fst (ranges step p h ! Suc i) = snd (ranges step p h ! i) + 1"
proof (induction step p h arbitrary: i rule: ranges.induct)
  case (1 step p h)
  show ?case
  proof (cases "p < h")
    case False
    with "1.prems" show ?thesis by (simp add: ranges_stop)
  next
    case True
    let ?l = "min (p + int step) h"
    have rs: "ranges step p h = (p, ?l) # ranges step (?l + 1) h" using True by (rule ranges_go)
    show ?thesis
    proof (cases i)
      case 0
      have "0 < length (ranges step (?l + 1) h)" using "1.prems" rs 0 by simp
      then have "?l + 1 < h" by (cases "?l + 1 < h") (simp_all add: ranges_stop)
      then have "fst (ranges step (?l + 1) h ! 0) = ?l + 1" by (simp add: ranges_go)
      with rs 0 show ?thesis by simp
    next
      case (Suc j)
      have "Suc j < length (ranges step (?l + 1) h)" using "1.prems" rs Suc by simp
      from "1.IH"[OF True this] rs Suc show ?thesis by simp
    qed
  qed
qed

lemma ranges_last:
  "p < h \<Longrightarrow>
   snd (last (ranges step p h)) = (if (h - p) mod (int step + 1) = 0 then h - 1 else h)"
proof (induction step p h rule: ranges.induct)
  case (1 step p h)
  let ?l = "min (p + int step) h"
  have rs: "ranges step p h = (p, ?l) # ranges step (?l + 1) h" using "1.prems" by (rule ranges_go)
  show ?case
  proof (cases "?l + 1 < h")
    case False
    then have e: "ranges step (?l + 1) h = []" by (rule ranges_stop)
    show ?thesis
    proof (cases "p + int step < h")
      case True
      with False have "h = p + int step + 1" by simp
      then show ?thesis using rs e by simp
    next
      case False
      then have "0 < h - p" "h - p < int step + 1" using "1.prems" by simp_all
      then have "(h - p) mod (int step + 1) = h - p" by simp
      with False "1.prems" rs e show ?thesis by simp
    qed
  next
    case True
    then have l: "?l = p + int step" by simp
    have ne: "ranges step (?l + 1) h \<noteq> []" using True by (simp add: ranges_go)
    have "(h - (?l + 1)) mod (int step + 1) = (h - p - (int step + 1)) mod (int step + 1)"
      using l by (simp add: algebra_simps)
    also have "\<dots> = (h - p) mod (int step + 1)" by simp
    finally have m: "(h - (?l + 1)) mod (int step + 1) = (h - p) mod (int step + 1)" .
    from "1.IH"[OF "1.prems" True] m rs ne show ?thesis by simp
  qed
qed

lemma scan_fails_at:
  "k < length (ranges step p h) \<Longrightarrow>
   \<forall>i<k. \<exists>logs. gl (fst (ranges step p h ! i)) (snd (ranges step p h ! i)) = Inr logs \<Longrightarrow>
   gl (fst (ranges step p h ! k)) (snd (ranges step p h ! k)) = Inl err \<Longrightarrow>
   requests (fst (scan_loop line step gl h p v)) = take (Suc k) (ranges step p h) \<and>
   snd (scan_loop line step gl h p v) = Inl err \<and>
   last (p # cursor_writes (fst (scan_loop line step gl h p v))) = fst (ranges step p h ! k)"
proof (induction line step gl h p v arbitrary: k rule: scan_loop.induct)
  case (1 line step gl h p v)
  show ?case
  proof (cases "p < h")
    case False
    with "1.prems" show ?thesis by (simp add: ranges_stop)
  next
    case True
    let ?l = "min (p + int step) h"
    have rs: "ranges step p h = (p, ?l) # ranges step (?l + 1) h" using True by (rule ranges_go)
    show ?thesis
    proof (cases k)
      case 0
      then have "gl p ?l = Inl err" using "1.prems"(3) rs by simp
      then show ?thesis using True rs 0 by (simp add: scan_fail)
    next
      case (Suc j)
      from "1.prems"(2) Suc rs obtain logs where g: "gl p ?l = Inr logs" by fastforce
      have a: "j < length (ranges step (?l + 1) h)" using "1.prems"(1) Suc rs by simp
      have b: "\<forall>i<j. \<exists>logs. gl (fst (ranges step (?l + 1) h ! i)) (snd (ranges step (?l + 1) h ! i)) = Inr logs"
      proof (intro allI impI)
        fix i assume "i < j"
        then have "Suc i < k" using Suc by simp
        with "1.prems"(2) obtain logs' where
          "gl (fst (ranges step p h ! Suc i)) (snd (ranges step p h ! Suc i)) = Inr logs'" by blast
        then show "\<exists>logs. gl (fst (ranges step (?l + 1) h ! i)) (snd (ranges step (?l + 1) h ! i)) = Inr logs"
          using rs by simp
      qed
      have c: "gl (fst (ranges step (?l + 1) h ! j)) (snd (ranges step (?l + 1) h ! j)) = Inl err"
        using "1.prems"(3) Suc rs by simp
      from "1.IH"[OF True refl g refl a b c] show ?thesis
        using True g rs Suc by (simp add: scan_ok)
    qed
  qed
qed

lemma scan_first_fetch:
  "p < h \<Longrightarrow> gl p (min (p + int step) h) = Inr logs \<Longrightarrow>
   \<exists>pre post q. fst (scan_loop line step gl h p v) = pre @ WriteCursor q # post \<and>
      cursor_writes post = [] \<and> requests pre \<noteq> [] \<and> p < q \<and>
      (\<forall>(a, b)\<in>set (requests pre). p \<le> a \<and> b < q)"
proof (induction line step gl h p v arbitrary: logs rule: scan_loop.induct)
  case (1 line step gl h p v)
  let ?l = "min (p + int step) h"
  let ?v = "v @ logs"
  let ?head = "[GetLogs p ?l, Print (line p ?l (length ?v))]"
  let ?rest = "fst (scan_loop line step gl h (?l + 1) ?v)"
  have tr: "fst (scan_loop line step gl h p v) = ?head @ WriteCursor (?l + 1) # Sleep # ?rest"
    using "1.prems" by (simp add: scan_ok)
  have pl: "p \<le> ?l" using "1.prems"(1) by simp
  show ?case
  proof (cases rule: scan_cases[where p="?l + 1" and h=h and gl=gl and step=step])
    case finished
    then have "?rest = []" by (simp add: scan_done)
    with tr pl show ?thesis
      by (intro exI[of _ ?head] exI[of _ "[Sleep]"] exI[of _ "?l + 1"]) simp
  next
    case (failed err)
    then have "?rest = [GetLogs (?l + 1) (min (?l + 1 + int step) h)]" by (simp add: scan_fail)
    with tr pl show ?thesis
      by (intro exI[of _ ?head] exI[of _ "Sleep # ?rest"] exI[of _ "?l + 1"]) simp
  next
    case (fetched logs')
    from "1.IH"[OF "1.prems"(1) refl "1.prems"(2) refl fetched]
    obtain pre post q where r: "?rest = pre @ WriteCursor q # post" "cursor_writes post = []"
      "requests pre \<noteq> []" "?l + 1 < q" "\<forall>(a, b)\<in>set (requests pre). ?l + 1 \<le> a \<and> b < q"
      by blast
    let ?pre = "?head @ WriteCursor (?l + 1) # Sleep # pre"
    have "fst (scan_loop line step gl h p v) = ?pre @ WriteCursor q # post" using tr r(1) by simp
    moreover have "\<forall>(a, b)\<in>set (requests ?pre). p \<le> a \<and> b < q" using r(4,5) pl by auto
    moreover have "p < q" using r(4) pl by simp
    ultimately show ?thesis using r(2) by (intro exI[of _ ?pre] exI[of _ post] exI[of _ q]) simp
  qed
qed

lemma connect_some:
  "\<exists>u\<in>set urls. pr u = Connected \<Longrightarrow> \<exists>url. snd (get_supreme_provider pr urls) = Some url"
  by (induction urls) (auto simp: Let_def split: probe.splits)

lemma init_same: "initialize_system cfg s = initialize_industrial_structure cfg s"
  by (simp add: initialize_system_def initialize_industrial_structure_def)

lemma init_quiet:
  "requests (initialize_industrial_structure cfg s) = []"
  "cert_writes (initialize_industrial_structure cfg s) = []"
  "publishes (initialize_industrial_structure cfg s) = []"
  by (simp_all add: initialize_industrial_structure_def)

lemma init_cursor:
  "cursor_file (exec (initialize_industrial_structure cfg s) s) = Some (start_cursor cfg s)"
  by (cases "cursor_file s") (simp_all add: initialize_industrial_structure_def start_cursor_def)

lemma init_files: "files (exec (initialize_industrial_structure cfg s) s) = files s"
  by (simp add: files_exec init_quiet)

lemma cycle_fatal:
  "snd (get_supreme_provider (is_connected e) (rpc_nodes cfg)) = None \<Longrightarrow>
   run_notary_cycle cfg e s =
     (SystemExit, initialize_industrial_structure cfg s @
                  fst (get_supreme_provider (is_connected e) (rpc_nodes cfg)))"
  by (simp add: run_notary_cycle_def Let_def)

lemma cycle_connected:
  "snd (get_supreme_provider (is_connected e) (rpc_nodes cfg)) = Some url \<Longrightarrow>
   run_notary_cycle cfg e s =
     (Returned,
      (initialize_industrial_structure cfg s @
       fst (get_supreme_provider (is_connected e) (rpc_nodes cfg)) @
       [Print (SessionBanner url 3 (start_cursor cfg s) (block_number e))]) @
      fst (scan_loop Progress (block_step cfg) (get_logs e) (block_number e) (start_cursor cfg s) []) @
      cycle_epilogue cfg e s)"
  by (simp add: run_notary_cycle_def cycle_epilogue_def Let_def split: sum.splits)

lemma supreme_fatal:
  "snd (get_supreme_provider (is_connected e) (rpc_nodes cfg)) = None \<Longrightarrow>
   run_supreme_notary cfg e s =
     (SystemExit, initialize_industrial_structure cfg s @
                  fst (get_supreme_provider (is_connected e) (rpc_nodes cfg)))"
  by (simp add: run_supreme_notary_def Let_def connect_same init_same)

lemma supreme_connected:
  "snd (get_supreme_provider (is_connected e) (rpc_nodes cfg)) = Some url \<Longrightarrow>
   run_supreme_notary cfg e s =
     (Returned,
      (initialize_industrial_structure cfg s @
       fst (get_supreme_provider (is_connected e) (rpc_nodes cfg)) @
       [Print (Activated (start_cursor cfg s) (block_number e))]) @
      fst (scan_loop Syncing (block_step cfg) (get_logs e) (block_number e) (start_cursor cfg s) []) @
      supreme_epilogue cfg e s)"
  by (simp add: run_supreme_notary_def supreme_epilogue_def Let_def connect_same init_same
      split: sum.splits)

lemma cycle_epilogue_quiet:
  "requests (cycle_epilogue cfg e s) = []" "cursor_writes (cycle_epilogue cfg e s) = []"
  by (simp_all add: cycle_epilogue_def split: sum.splits)

lemma supreme_epilogue_quiet:
  "requests (supreme_epilogue cfg e s) = []" "cursor_writes (supreme_epilogue cfg e s) = []"
  by (simp_all add: supreme_epilogue_def split: sum.splits)

lemma filter_same_key:
  "distinct (map fst zs) \<Longrightarrow> k \<in> set zs \<Longrightarrow> filter (\<lambda>x. fst k = fst x) zs = [k]"
proof (induction zs)
  case Nil
  then show ?case by simp
next
  case (Cons z zs)
  show ?case
  proof (cases "k = z")
    case True
    have "\<forall>x\<in>set zs. fst x \<noteq> fst z" using Cons.prems(1) by (auto simp: image_iff)
    then have "filter (\<lambda>x. fst z = fst x) zs = []" by (auto simp: filter_empty_conv)
    with True show ?thesis by simp
  next
    case False
    then have kin: "k \<in> set zs" using Cons.prems(2) by simp
    then have "fst k \<noteq> fst z" using Cons.prems(1) by (auto simp: image_iff)
    with Cons.IH kin Cons.prems(1) show ?thesis by simp
  qed
qed

lemma sort_key_perm_distinct:
  assumes "mset xs = mset ys" and "distinct (map fst xs)"
  shows "sort_key fst xs = sort_key fst ys"
proof (rule properties_for_sort_key)
  show "mset (sort_key fst ys) = mset xs" using assms(1) by simp
  show "sorted (map fst (sort_key fst ys))" by simp
  fix k assume k: "k \<in> set (sort_key fst ys)"
  have "mset (map fst (sort_key fst ys)) = mset (map fst xs)" using assms(1) by simp
  then have d: "distinct (map fst (sort_key fst ys))"
    using assms(2) mset_eq_imp_distinct_iff by blast
  have kx: "k \<in> set xs" using k assms(1) by (metis mset_eq_setD set_sort)
  show "filter (\<lambda>x. fst k = fst x) (sort_key fst ys) = filter (\<lambda>x. fst k = fst x) xs"
    using filter_same_key[OF d k] filter_same_key[OF assms(2) kx] by simp
qed

lemma list_all2_insort_key:
  assumes "\<And>x y. R x y \<Longrightarrow> fst x = fst y"
  shows "list_all2 R xs ys \<Longrightarrow> R x y \<Longrightarrow> list_all2 R (insort_key fst x xs) (insort_key fst y ys)"
proof (induction rule: list_all2_induct)
  case Nil
  then show ?case by simp
next
  case (Cons a xs b ys)
  have "fst a = fst b" "fst x = fst y" using assms Cons by auto
  with Cons show ?case by simp
qed

lemma list_all2_sort_key:
  assumes "\<And>x y. R x y \<Longrightarrow> fst x = fst y"
  shows "list_all2 R xs ys \<Longrightarrow> list_all2 R (sort_key fst xs) (sort_key fst ys)"
proof (induction rule: list_all2_induct)
  case Nil
  then show ?case by simp
next
  case (Cons a xs b ys)
  then show ?case using list_all2_insort_key[OF assms] by simp
qed

lemma dumps_key_order:
  "same_upto_key_order a b \<Longrightarrow> keys_unique a \<Longrightarrow> dumps a = dumps b"
proof (induction rule: same_upto_key_order.induct)
  case (same_refl j)
  then show ?case by simp
next
  case (same_arr xs ys)
  have "list_all2 (\<lambda>x y. keys_unique x \<longrightarrow> dumps x = dumps y) xs ys"
    using same_arr.IH by (rule list_all2_mono) simp
  moreover have "list_all keys_unique xs" using same_arr.prems by simp
  ultimately have "map dumps xs = map dumps ys"
    by (induction rule: list_all2_induct) auto
  then show ?case by simp
next
  case (same_obj kvs kvs' kvs'')
  let ?enc = "\<lambda>(k, v). encode_basestring_ascii k @ '': '' @ dumps v"
  let ?R = "\<lambda>p q. fst p = fst q \<and> (keys_unique (snd p) \<longrightarrow> dumps (snd p) = dumps (snd q))"
  have R: "list_all2 ?R kvs kvs'"
    using same_obj.IH by (rule list_all2_mono) auto
  have keys: "map fst kvs = map fst kvs'"
    using R by (induction rule: list_all2_induct) auto
  have d: "distinct (map fst kvs')" using same_obj.prems keys by simp
  have s1: "sort_key fst kvs' = sort_key fst kvs''"
    by (rule sort_key_perm_distinct[OF same_obj.hyps d])
  have "list_all2 ?R (sort_key fst kvs) (sort_key fst kvs')"
    by (rule list_all2_sort_key[OF _ R]) simp
  moreover have "list_all (\<lambda>(k, v). keys_unique v) (sort_key fst kvs)"
    using same_obj.prems by (simp add: list_all_iff)
  ultimately have "map ?enc (sort_key fst kvs) = map ?enc (sort_key fst kvs')"
    by (induction rule: list_all2_induct) auto
  with s1 show ?case by simp
qed

lemma dumps_batch_key_order:
  assumes "list_all2 same_upto_key_order B B'" and "list_all keys_unique B"
  shows "dumps (JArr B') = dumps (JArr B)"
proof -
  have "same_upto_key_order (JArr B) (JArr B')" using assms(1) by (rule same_arr)
  moreover have "keys_unique (JArr B)" using assms(2) by simp
  ultimately show ?thesis using dumps_key_order by metis
qed

subsection \<open>Shape of a run and the evaluated examples\<close>

lemma split_request_left:
  assumes "xs @ ys = pre @ GetLogs a b # post" and "requests xs = []"
  shows "\<exists>pre'. pre = xs @ pre' \<and> ys = pre' @ GetLogs a b # post"
proof -
  from assms(1) obtain us where
    "(xs = pre @ us \<and> us @ ys = GetLogs a b # post) \<or> (xs @ us = pre \<and> ys = us @ GetLogs a b # post)"
    by (auto simp: append_eq_append_conv2)
  then show ?thesis
  proof
    assume c: "xs = pre @ us \<and> us @ ys = GetLogs a b # post"
    show ?thesis
    proof (cases us)
      case Nil
      with c show ?thesis by simp
    next
      case (Cons u us')
      with c have "xs = pre @ GetLogs a b # us'" by simp
      with assms(2) show ?thesis by simp
    qed
  next
    assume "xs @ us = pre \<and> ys = us @ GetLogs a b # post"
    then show ?thesis by auto
  qed
qed

lemma split_request_right:
  assumes "xs @ ys = pre @ GetLogs a b # post" and "requests ys = []"
  shows "\<exists>post'. xs = pre @ GetLogs a b # post'"
proof -
  from assms(1) obtain us where
    "(xs = pre @ us \<and> us @ ys = GetLogs a b # post) \<or> (xs @ us = pre \<and> ys = us @ GetLogs a b # post)"
    by (auto simp: append_eq_append_conv2)
  then show ?thesis
  proof
    assume c: "xs = pre @ us \<and> us @ ys = GetLogs a b # post"
    show ?thesis
    proof (cases us)
      case Nil
      with c assms(2) show ?thesis by simp
    next
      case (Cons u us')
      with c show ?thesis by simp
    qed
  next
    assume "xs @ us = pre \<and> ys = us @ GetLogs a b # post"
    with assms(2) show ?thesis by simp
  qed
qed

lemma connect_printed: "printed (fst (get_supreme_provider pr urls)) = []"
  by (induction urls) (simp_all add: Let_def split: probe.splits)

lemma init_printed: "printed (initialize_industrial_structure cfg s) = []"
  by (simp add: initialize_industrial_structure_def)

lemma init_writes:
  "cursor_writes (initialize_industrial_structure cfg s) =
     (if cursor_file s = None then [genesis_block cfg] else [])"
  by (simp add: initialize_industrial_structure_def)

lemma shape_writes:
  assumes "tr = (initialize_industrial_structure cfg s @ A) @
                fst (scan_loop line step gl h (start_cursor cfg s) v) @ E"
    and "cursor_writes A = []" and "cursor_writes E = []"
  shows "cursor_writes tr = cursor_writes (initialize_industrial_structure cfg s) @
           cursor_writes (fst (scan_loop line step gl h (start_cursor cfg s) v)) \<and>
         sorted_wrt (<) (start_cursor cfg s #
           cursor_writes (fst (scan_loop line step gl h (start_cursor cfg s) v)))"
  using assms scan_writes_increase[of "start_cursor cfg s" line step gl h v] by simp

lemma shape_cursor_at_request:
  assumes tr: "tr = (initialize_industrial_structure cfg s @ A) @
                fst (scan_loop line step gl h (start_cursor cfg s) v) @ E"
    and A: "cursor_writes A = []" "requests A = []" and E: "requests E = []"
    and sp: "tr = pre @ GetLogs a b # post"
  shows "cursor_file (exec pre s) = Some a"
proof -
  let ?I = "initialize_industrial_structure cfg s @ A"
  let ?S = "fst (scan_loop line step gl h (start_cursor cfg s) v)"
  have rI: "requests ?I = []" using A by (simp add: init_quiet)
  have "?I @ (?S @ E) = pre @ GetLogs a b # post" using tr sp by simp
  from split_request_left[OF this rI]
  obtain pre' where p: "pre = ?I @ pre'" "?S @ E = pre' @ GetLogs a b # post" by blast
  from split_request_right[OF p(2) E] obtain post' where "?S = pre' @ GetLogs a b # post'" by blast
  then have l: "last (start_cursor cfg s # cursor_writes pre') = a"
    by (rule scan_cursor_at_request)
  have "cursor_file (exec ?I s) = Some (start_cursor cfg s)"
    using A(1) init_cursor[of cfg s] by (simp add: cursor_file_exec)
  then have "cursor_file (exec pre s) = Some (last (start_cursor cfg s # cursor_writes pre'))"
    using p(1) by (simp add: cursor_file_exec)
  with l show ?thesis by simp
qed

lemma cycle_prologue_quiet:
  "cursor_writes (fst (get_supreme_provider pr urls) @ [Print m]) = []"
  "requests (fst (get_supreme_provider pr urls) @ [Print m]) = []"
  "cert_writes (fst (get_supreme_provider pr urls) @ [Print m]) = []"
  "publishes (fst (get_supreme_provider pr urls) @ [Print m]) = []"
  by (simp_all add: connect_trace)

lemma cycle_shape:
  assumes "snd (get_supreme_provider (is_connected e) (rpc_nodes cfg)) = Some url"
  shows "snd (run_notary_cycle cfg e s) =
     (initialize_industrial_structure cfg s @
      (fst (get_supreme_provider (is_connected e) (rpc_nodes cfg)) @
       [Print (SessionBanner url 3 (start_cursor cfg s) (block_number e))])) @
     fst (scan_loop Progress (block_step cfg) (get_logs e) (block_number e) (start_cursor cfg s) []) @
     cycle_epilogue cfg e s"
  using cycle_connected[OF assms] by simp

lemma supreme_shape:
  assumes "snd (get_supreme_provider (is_connected e) (rpc_nodes cfg)) = Some url"
  shows "snd (run_supreme_notary cfg e s) =
     (initialize_industrial_structure cfg s @
      (fst (get_supreme_provider (is_connected e) (rpc_nodes cfg)) @
       [Print (Activated (start_cursor cfg s) (block_number e))])) @
     fst (scan_loop Syncing (block_step cfg) (get_logs e) (block_number e) (start_cursor cfg s) []) @
     supreme_epilogue cfg e s"
  using supreme_connected[OF assms] by simp

lemma cycle_cursor_facts:
  "(\<exists>ws. cursor_writes (snd (run_notary_cycle cfg e s)) =
          cursor_writes (initialize_industrial_structure cfg s) @ ws \<and>
        sorted_wrt (<) (start_cursor cfg s # ws)) \<and>
   (snd (run_notary_cycle cfg e s) = pre @ GetLogs a b # post \<longrightarrow>
      cursor_file (exec pre s) = Some a)"
proof (cases "snd (get_supreme_provider (is_connected e) (rpc_nodes cfg))")
  case None
  have tr: "snd (run_notary_cycle cfg e s) =
      initialize_industrial_structure cfg s @
      fst (get_supreme_provider (is_connected e) (rpc_nodes cfg))"
    using cycle_fatal[OF None] by simp
  have "requests (snd (run_notary_cycle cfg e s)) = []"
    using tr by (simp add: init_quiet connect_trace)
  then have "snd (run_notary_cycle cfg e s) \<noteq> pre @ GetLogs a b # post" by auto
  then show ?thesis using tr by (simp add: connect_trace)
next
  case (Some url)
  note sh = cycle_shape[OF Some, of s]
  from shape_writes[OF sh cycle_prologue_quiet(1) cycle_epilogue_quiet(2)]
    shape_cursor_at_request[OF sh cycle_prologue_quiet(1,2) cycle_epilogue_quiet(1)]
  show ?thesis by blast
qed

lemma supreme_cursor_facts:
  "(\<exists>ws. cursor_writes (snd (run_supreme_notary cfg e s)) =
          cursor_writes (initialize_industrial_structure cfg s) @ ws \<and>
        sorted_wrt (<) (start_cursor cfg s # ws)) \<and>
   (snd (run_supreme_notary cfg e s) = pre @ GetLogs a b # post \<longrightarrow>
      cursor_file (exec pre s) = Some a)"
proof (cases "snd (get_supreme_provider (is_connected e) (rpc_nodes cfg))")
  case None
  have tr: "snd (run_supreme_notary cfg e s) =
      initialize_industrial_structure cfg s @
      fst (get_supreme_provider (is_connected e) (rpc_nodes cfg))"
    using supreme_fatal[OF None] by simp
  have "requests (snd (run_supreme_notary cfg e s)) = []"
    using tr by (simp add: init_quiet connect_trace)
  then have "snd (run_supreme_notary cfg e s) \<noteq> pre @ GetLogs a b # post" by auto
  then show ?thesis using tr by (simp add: connect_trace)
next
  case (Some url)
  note sh = supreme_shape[OF Some, of s]
  from shape_writes[OF sh cycle_prologue_quiet(1) supreme_epilogue_quiet(2)]
    shape_cursor_at_request[OF sh cycle_prologue_quiet(1,2) supreme_epilogue_quiet(1)]
  show ?thesis by blast
qed

lemma example_fields:
  "block_number (example_env h) = h"
  "time_time (example_env h) k = 1700000000 + int k"
  "sha256_hexdigest (example_env h) = (\<lambda>s. ''9f86d081884c7d65'')"
  "utcnow_isoformat (example_env h) = ''2024-01-01T00:00:00''"
  "ipfs_add (example_env h) p = (0, ''QmExample'', [])"
  by (simp_all add: example_env_def)

lemma example_get_logs:
  "get_logs (example_env h) a b =
     (if a = 1000 then Inr [example_event 0, example_event 1, example_event 2] else Inr [])"
  by (simp add: example_env_def)

lemma example_connect:
  "get_supreme_provider (is_connected (example_env h)) RPC_NODES =
     ([Probe ''https://xlayer.drpc.org'', Probe ''https://rpc.xlayer.okx.com''],
      Some ''https://rpc.xlayer.okx.com'')"
  by (simp add: example_env_def RPC_NODES_def)

lemma example_scan:
  "scan_loop line 100 (get_logs (example_env 1205)) 1205 1000 [] =
     ([GetLogs 1000 1100, Print (line 1000 1100 3), WriteCursor 1101, Sleep,
       GetLogs 1101 1201, Print (line 1101 1201 3), WriteCursor 1202, Sleep,
       GetLogs 1202 1205, Print (line 1202 1205 3), WriteCursor 1206, Sleep],
      Inr [example_event 0, example_event 1, example_event 2])"
  by (simp add: scan_loop.simps example_get_logs numeral_3_eq_3)

lemma example_start:
  "start_cursor example_config example_store = 1000"
  "initialize_industrial_structure example_config example_store = []"
  "block_step example_config = 100"
  "rpc_nodes example_config = RPC_NODES"
  by (simp_all add: start_cursor_def example_store_def initialize_industrial_structure_def
      example_config_def)

lemma example_digest:
  "snd (seal_artifact (\<lambda>s. ''9f86d081884c7d65'') t B x y) = ''9F86D081884C7D65''"
  "snd (supreme_seal (\<lambda>s. ''9f86d081884c7d65'') u B x y) = ''9F86D081884C7D65''"
  by (simp_all add: seal_artifact_def supreme_seal_def Let_def upper_def upper_char_def)

lemma example_times:
  "str_int 1700000000 = ''1700000000''" "str_int 1700000001 = ''1700000001''"
  by (simp_all add: str_int_def digit_char_def)

lemma example_cycle:
  "run_notary_cycle example_config (example_env 1205) example_store =
     (Returned,
      [Probe ''https://xlayer.drpc.org'', Probe ''https://rpc.xlayer.okx.com'',
       Print (SessionBanner ''https://rpc.xlayer.okx.com'' 3 1000 1205),
       GetLogs 1000 1100, Print (Progress 1000 1100 3), WriteCursor 1101, Sleep,
       GetLogs 1101 1201, Print (Progress 1101 1201 3), WriteCursor 1202, Sleep,
       GetLogs 1202 1205, Print (Progress 1202 1205 3), WriteCursor 1206, Sleep,
       WriteJson SNAPSHOTS ''AOXC_CERT_1700000000_9F86D081.json''
         (fst (seal_artifact (\<lambda>s. ''9f86d081884c7d65'') ''2024-01-01T00:00:00''
                 [example_event 0, example_event 1, example_event 2] 1000 1205)),
       Print (SealingComplete ''9F86D081884C7D65''),
       Print (ArtifactSaved ''AOXC_CERT_1700000000_9F86D081.json'')])"
proof -
  have c: "snd (get_supreme_provider (is_connected (example_env 1205)) (rpc_nodes example_config))
         = Some ''https://rpc.xlayer.okx.com''"
    by (simp add: example_connect example_start)
  show ?thesis
    unfolding cycle_connected[OF c] cycle_epilogue_def
    by (simp add: example_start example_fields example_connect example_scan example_digest
        example_times)
qed

lemma example_supreme:
  "run_supreme_notary example_config (example_env 1205) example_store =
     (Returned,
      [Probe ''https://xlayer.drpc.org'', Probe ''https://rpc.xlayer.okx.com'',
       Print (Activated 1000 1205),
       GetLogs 1000 1100, Print (Syncing 1000 1100 3), WriteCursor 1101, Sleep,
       GetLogs 1101 1201, Print (Syncing 1101 1201 3), WriteCursor 1202, Sleep,
       GetLogs 1202 1205, Print (Syncing 1202 1205 3), WriteCursor 1206, Sleep,
       Print SealingStarted,
       WriteJson SNAPSHOTS ''Supreme_Sealed_1700000001.json''
         (fst (supreme_seal (\<lambda>s. ''9f86d081884c7d65'') 1700000000
                 [example_event 0, example_event 1, example_event 2] 1000 1205)),
       IpfsAdd SNAPSHOTS ''Supreme_Sealed_1700000001.json'',
       Print (SealDone ''9F86D081884C7D65''),
       Print (IpfsCid ''QmExample'')])"
proof -
  have c: "snd (get_supreme_provider (is_connected (example_env 1205)) (rpc_nodes example_config))
         = Some ''https://rpc.xlayer.okx.com''"
    by (simp add: example_connect example_start)
  show ?thesis
    unfolding supreme_connected[OF c] supreme_epilogue_def
    by (simp add: example_start example_fields example_connect example_scan example_digest
        example_times strip_def is_space_def)
qed

lemma scan_three_ranges:
  assumes "gl 1000 1100 = Inr [e1, e2, e3]" and "gl 1101 1201 = Inr []" and "gl 1202 1205 = Inr []"
  shows "scan_loop line 100 gl 1205 1000 [] =
     ([GetLogs 1000 1100, Print (line 1000 1100 3), WriteCursor 1101, Sleep,
       GetLogs 1101 1201, Print (line 1101 1201 3), WriteCursor 1202, Sleep,
       GetLogs 1202 1205, Print (line 1202 1205 3), WriteCursor 1206, Sleep],
      Inr [e1, e2, e3])"
  by (simp add: scan_loop.simps assms numeral_3_eq_3)

lemma range_text: "str_int 1000 @ ''-'' @ str_int 1205 = ''1000-1205''"
  by (simp add: str_int_def digit_char_def)

lemma prologue_exec:
  "cursor_writes A = [] \<Longrightarrow>
   cursor_file (exec (initialize_industrial_structure cfg s @ A) s) = Some (start_cursor cfg s)"
  using init_cursor[of cfg s] by (simp add: cursor_file_exec)

subsection \<open>Later runs on the same files\<close>

lemma requests_take: "set (requests (take n tr)) \<subseteq> set (requests tr)"
proof -
  have "requests tr = requests (take n tr) @ requests (drop n tr)"
    by (metis append_take_drop_id requests_simps(2))
  then show ?thesis by auto
qed

lemma cursor_writes_take: "set (cursor_writes (take n tr)) \<subseteq> set (cursor_writes tr)"
proof -
  have "cursor_writes tr = cursor_writes (take n tr) @ cursor_writes (drop n tr)"
    by (metis append_take_drop_id cursor_writes_simps(2))
  then show ?thesis by auto
qed

lemma cycle_requests_from:
  assumes "(a, b) \<in> set (requests (snd (run_notary_cycle cfg e s)))"
  shows "start_cursor cfg s \<le> a"
proof (cases "snd (get_supreme_provider (is_connected e) (rpc_nodes cfg))")
  case None
  with assms show ?thesis by (simp add: cycle_fatal init_quiet connect_trace)
next
  case (Some url)
  from assms have "(a, b) \<in> set (requests (fst (scan_loop Progress (block_step cfg) (get_logs e)
      (block_number e) (start_cursor cfg s) [])))"
    by (simp add: cycle_connected[OF Some] init_quiet connect_trace cycle_epilogue_quiet)
  then show ?thesis using scan_requests_from by blast
qed

lemma supreme_requests_from:
  assumes "(a, b) \<in> set (requests (snd (run_supreme_notary cfg e s)))"
  shows "start_cursor cfg s \<le> a"
proof (cases "snd (get_supreme_provider (is_connected e) (rpc_nodes cfg))")
  case None
  with assms show ?thesis by (simp add: supreme_fatal init_quiet connect_trace)
next
  case (Some url)
  from assms have "(a, b) \<in> set (requests (fst (scan_loop Syncing (block_step cfg) (get_logs e)
      (block_number e) (start_cursor cfg s) [])))"
    by (simp add: supreme_connected[OF Some] init_quiet connect_trace supreme_epilogue_quiet)
  then show ?thesis using scan_requests_from by blast
qed

lemma writes_from:
  assumes "cursor_writes tr = cursor_writes (initialize_industrial_structure cfg s) @ ws"
    and "sorted_wrt (<) (start_cursor cfg s # ws)" and "v \<in> set (cursor_writes tr)"
  shows "start_cursor cfg s \<le> v"
  using assms by (auto simp: init_writes start_cursor_def split: if_splits)

lemma cycle_writes_from:
  "v \<in> set (cursor_writes (snd (run_notary_cycle cfg e s))) \<Longrightarrow> start_cursor cfg s \<le> v"
  using cycle_cursor_facts[of cfg e s] writes_from by blast

lemma supreme_writes_from:
  "v \<in> set (cursor_writes (snd (run_supreme_notary cfg e s))) \<Longrightarrow> start_cursor cfg s \<le> v"
  using supreme_cursor_facts[of cfg e s] writes_from by blast

lemma lifetime_from:
  assumes R: "\<And>cfg e s a b. (a, b) \<in> set (requests (snd (run cfg e s))) \<Longrightarrow> start_cursor cfg s \<le> a"
    and W: "\<And>cfg e s v. v \<in> set (cursor_writes (snd (run cfg e s))) \<Longrightarrow> start_cursor cfg s \<le> v"
  shows "cursor_file s = Some q \<Longrightarrow> p \<le> q \<Longrightarrow>
         (a, b) \<in> set (requests (lifetime run cfg es s)) \<Longrightarrow> p \<le> a"
proof (induction es arbitrary: s q)
  case Nil
  then show ?case by simp
next
  case (Cons en es)
  obtain e n where en: "en = (e, n)" by (cases en)
  let ?tr = "take n (snd (run cfg e s))"
  have st: "start_cursor cfg s = q" using Cons.prems(1) by (simp add: start_cursor_def)
  from Cons.prems(3) en
  consider "(a, b) \<in> set (requests ?tr)" | "(a, b) \<in> set (requests (lifetime run cfg es (exec ?tr s)))"
    by (auto simp: Let_def)
  then show ?case
  proof cases
    case 1
    then have "(a, b) \<in> set (requests (snd (run cfg e s)))" using requests_take by blast
    from R[OF this] st Cons.prems(2) show ?thesis by simp
  next
    case 2
    have "\<exists>q'. cursor_file (exec ?tr s) = Some q' \<and> q \<le> q'"
    proof (cases "cursor_writes ?tr = []")
      case True
      then show ?thesis using Cons.prems(1) by (simp add: cursor_file_exec)
    next
      case False
      then have "last (cursor_writes ?tr) \<in> set (cursor_writes (snd (run cfg e s)))"
        using cursor_writes_take last_in_set by blast
      from W[OF this] st False show ?thesis by (simp add: cursor_file_exec)
    qed
    then obtain q' where q': "cursor_file (exec ?tr s) = Some q'" "q \<le> q'" by blast
    from Cons.IH[OF q'(1) _ 2] q'(2) Cons.prems(2) show ?thesis by simp
  qed
qed

lemma shape_gap:
  assumes tr: "tr = (initialize_industrial_structure cfg s @ A) @
                fst (scan_loop line step gl h (start_cursor cfg s) []) @ E"
    and A: "cursor_writes A = []" "requests A = []" "cert_writes A = []"
    and E: "cursor_writes E = []"
    and lt: "start_cursor cfg s < h"
    and first: "gl (start_cursor cfg s) (min (start_cursor cfg s + int step) h) = Inr logs"
  shows "\<exists>pre post q. tr = pre @ post \<and> cursor_writes pre \<noteq> [] \<and> last (cursor_writes pre) = q \<and>
      cursor_writes post = [] \<and> cert_writes pre = [] \<and>
      cursor_file (exec pre s) = Some q \<and> files (exec pre s) = files s \<and>
      start_cursor cfg s < q \<and> requests pre \<noteq> [] \<and>
      (\<forall>(a, b)\<in>set (requests pre). start_cursor cfg s \<le> a \<and> b < q)"
proof -
  let ?I = "initialize_industrial_structure cfg s @ A"
  let ?S = "fst (scan_loop line step gl h (start_cursor cfg s) [])"
  from scan_first_fetch[where gl=gl and p="start_cursor cfg s" and h=h and step=step and logs=logs
      and line=line and v="[]", OF lt first]
  obtain pre' post' q where s: "?S = pre' @ WriteCursor q # post'" "cursor_writes post' = []"
    "requests pre' \<noteq> []" "start_cursor cfg s < q"
    "\<forall>(a, b)\<in>set (requests pre'). start_cursor cfg s \<le> a \<and> b < q"
    by blast
  let ?pre = "?I @ pre' @ [WriteCursor q]"
  let ?post = "post' @ E"
  have "cert_writes ?S = []" using scan_quiet by blast
  then have cq: "cert_writes pre' = []" using s(1) by simp
  have c: "cert_writes ?pre = []" using cq A(3) by (simp add: init_quiet)
  have 1: "tr = ?pre @ ?post" using tr s(1) by simp
  have 2: "cursor_writes ?pre \<noteq> []" "last (cursor_writes ?pre) = q" by simp_all
  have 3: "cursor_writes ?post = []" using s(2) E by simp
  have 4: "cursor_file (exec ?pre s) = Some q" using 2 by (simp only: cursor_file_exec if_False)
  have 5: "files (exec ?pre s) = files s" using c by (rule files_exec)
  have 6: "requests ?pre = requests pre'" using A(2) by (simp add: init_quiet)
  from 1 2 3 c 4 5 6 s(3,4,5) show ?thesis by metis
qed

lemma cycle_lifetime_from:
  assumes "cursor_file s = Some q"
    and "(a, b) \<in> set (requests (lifetime run_notary_cycle cfg es s))"
  shows "q \<le> a"
proof (rule lifetime_from[where run=run_notary_cycle and q=q and s=s and cfg=cfg and es=es and b=b])
  show "\<And>cfg e s a b. (a, b) \<in> set (requests (snd (run_notary_cycle cfg e s))) \<Longrightarrow>
          start_cursor cfg s \<le> a"
    by (rule cycle_requests_from)
  show "\<And>cfg e s v. v \<in> set (cursor_writes (snd (run_notary_cycle cfg e s))) \<Longrightarrow>
          start_cursor cfg s \<le> v"
    by (rule cycle_writes_from)
qed (use assms in simp_all)

lemma supreme_lifetime_from:
  assumes "cursor_file s = Some q"
    and "(a, b) \<in> set (requests (lifetime run_supreme_notary cfg es s))"
  shows "q \<le> a"
proof (rule lifetime_from[where run=run_supreme_notary and q=q and s=s and cfg=cfg and es=es and b=b])
  show "\<And>cfg e s a b. (a, b) \<in> set (requests (snd (run_supreme_notary cfg e s))) \<Longrightarrow>
          start_cursor cfg s \<le> a"
    by (rule supreme_requests_from)
  show "\<And>cfg e s v. v \<in> set (cursor_writes (snd (run_supreme_notary cfg e s))) \<Longrightarrow>
          start_cursor cfg s \<le> v"
    by (rule supreme_writes_from)
qed (use assms in simp_all)

lemma scan_all_empty_printed:
  "\<forall>(a, b)\<in>set (ranges step p h). gl a b = Inr [] \<Longrightarrow>
   printed (fst (scan_loop line step gl h p v)) =
     map (\<lambda>(a, b). line a b (length v)) (ranges step p h)"
proof (induction line step gl h p v rule: scan_loop.induct)
  case (1 line step gl h p v)
  show ?case
  proof (cases "p < h")
    case False
    then show ?thesis by (simp add: scan_done ranges_stop)
  next
    case True
    let ?l = "min (p + int step) h"
    have rs: "ranges step p h = (p, ?l) # ranges step (?l + 1) h" using True by (rule ranges_go)
    have g: "gl p ?l = Inr []" using "1.prems" rs by simp
    have "\<forall>(a, b)\<in>set (ranges step (?l + 1) h). gl a b = Inr []" using "1.prems" rs by simp
    from "1.IH"[OF True refl g refl this] show ?thesis
      using True g rs by (simp add: scan_ok)
  qed
qed

lemma scan_all_empty_writes:
  "\<forall>(a, b)\<in>set (ranges step p h). gl a b = Inr [] \<Longrightarrow>
   cursor_writes (fst (scan_loop line step gl h p v)) = map (\<lambda>(a, b). b + 1) (ranges step p h)"
proof (induction line step gl h p v rule: scan_loop.induct)
  case (1 line step gl h p v)
  show ?case
  proof (cases "p < h")
    case False
    then show ?thesis by (simp add: scan_done ranges_stop)
  next
    case True
    let ?l = "min (p + int step) h"
    have rs: "ranges step p h = (p, ?l) # ranges step (?l + 1) h" using True by (rule ranges_go)
    have g: "gl p ?l = Inr []" using "1.prems" rs by simp
    have "\<forall>(a, b)\<in>set (ranges step (?l + 1) h). gl a b = Inr []" using "1.prems" rs by simp
    from "1.IH"[OF True refl g refl this] show ?thesis
      using True g rs by (simp add: scan_ok)
  qed
qed

subsection \<open>The cursor after a run\<close>

lemma example_ranges: "ranges 100 1000 1205 = [(1000, 1100), (1101, 1201), (1202, 1205)]"
  by (simp add: ranges.simps)

lemma shape_final_cursor:
  assumes "tr = (initialize_industrial_structure cfg s @ A) @
                fst (scan_loop line step gl h (start_cursor cfg s) v) @ E"
    and "cursor_writes A = []" and "cursor_writes E = []"
  shows "cursor_file (exec tr s) =
     Some (last (start_cursor cfg s # cursor_writes (fst (scan_loop line step gl h (start_cursor cfg s) v))))"
  using assms prologue_exec[of A cfg s] by (simp add: cursor_file_exec)

lemma ranges_nth_start:
  assumes "k < length (ranges step p h)"
  shows "fst (ranges step p h ! k) = (if k = 0 then p else snd (ranges step p h ! (k - 1)) + 1)"
proof (cases k)
  case 0
  have "p < h" using assms by (cases "p < h") (simp_all add: ranges_stop)
  then show ?thesis using 0 by (simp add: ranges_go)
next
  case (Suc j)
  then show ?thesis using assms ranges_contiguous[of j step p h] by simp
qed

subsection \<open>Full scans, the two configured steps, file names\<close>

lemma scan_all_ok:
  "\<forall>(a, b)\<in>set (ranges step p h). \<exists>logs. gl a b = Inr logs \<Longrightarrow>
   requests (fst (scan_loop line step gl h p v)) = ranges step p h \<and>
   cursor_writes (fst (scan_loop line step gl h p v)) = map (\<lambda>(a, b). b + 1) (ranges step p h)"
proof (induction line step gl h p v rule: scan_loop.induct)
  case (1 line step gl h p v)
  show ?case
  proof (cases "p < h")
    case False
    then show ?thesis by (simp add: scan_done ranges_stop)
  next
    case True
    let ?l = "min (p + int step) h"
    have rs: "ranges step p h = (p, ?l) # ranges step (?l + 1) h" using True by (rule ranges_go)
    from "1.prems" rs obtain logs where g: "gl p ?l = Inr logs" by auto
    have "\<forall>(a, b)\<in>set (ranges step (?l + 1) h). \<exists>logs. gl a b = Inr logs" using "1.prems" rs by simp
    from "1.IH"[OF True refl g refl this] show ?thesis
      using True g rs by (simp add: scan_ok)
  qed
qed

lemma ranges_exact_multiple: "ranges step c (c + int step + 1) = [(c, c + int step)]"
  by (simp add: ranges_go ranges_stop)

lemma example_scan_v840:
  "scan_loop line 70 (get_logs (example_env 1071)) 1071 1000 [] =
     ([GetLogs 1000 1070, Print (line 1000 1070 3), WriteCursor 1071, Sleep],
      Inr [example_event 0, example_event 1, example_event 2])"
  by (simp add: scan_loop.simps example_get_logs numeral_3_eq_3)

lemma example_scan_v835:
  "scan_loop line 85 (get_logs (example_env 1086)) 1086 1000 [] =
     ([GetLogs 1000 1085, Print (line 1000 1085 3), WriteCursor 1086, Sleep],
      Inr [example_event 0, example_event 1, example_event 2])"
  by (simp add: scan_loop.simps example_get_logs numeral_3_eq_3)

lemma example_start_v840:
  "start_cursor config_v840 example_store = 1000"
  "initialize_industrial_structure config_v840 example_store = []"
  "block_step config_v840 = 70"
  "rpc_nodes config_v840 = RPC_NODES"
  "start_cursor config_v835 example_store = 1000"
  "initialize_industrial_structure config_v835 example_store = []"
  "block_step config_v835 = 85"
  "rpc_nodes config_v835 = RPC_NODES"
  by (simp_all add: start_cursor_def example_store_def initialize_industrial_structure_def
      config_v840_def config_v835_def)

lemma example_range_texts:
  "str_int 1000 @ ''-'' @ str_int 1071 = ''1000-1071''"
  "str_int 1000 @ ''-'' @ str_int 1086 = ''1000-1086''"
  by (simp_all add: str_int_def digit_char_def)

lemma example_cycle_v840:
  "snd (run_notary_cycle config_v840 (example_env 1071) example_store) =
      [Probe ''https://xlayer.drpc.org'', Probe ''https://rpc.xlayer.okx.com'',
       Print (SessionBanner ''https://rpc.xlayer.okx.com'' 3 1000 1071),
       GetLogs 1000 1070, Print (Progress 1000 1070 3), WriteCursor 1071, Sleep,
       WriteJson SNAPSHOTS ''AOXC_CERT_1700000000_9F86D081.json''
         (fst (seal_artifact (\<lambda>s. ''9f86d081884c7d65'') ''2024-01-01T00:00:00''
                 [example_event 0, example_event 1, example_event 2] 1000 1071)),
       Print (SealingComplete ''9F86D081884C7D65''),
       Print (ArtifactSaved ''AOXC_CERT_1700000000_9F86D081.json'')]"
proof -
  have c: "snd (get_supreme_provider (is_connected (example_env 1071)) (rpc_nodes config_v840))
         = Some ''https://rpc.xlayer.okx.com''"
    by (simp add: example_connect example_start_v840)
  show ?thesis
    unfolding cycle_connected[OF c] cycle_epilogue_def
    by (simp add: example_start_v840 example_fields example_connect example_scan_v840 example_digest
        example_times)
qed

lemma example_supreme_v835:
  "snd (run_supreme_notary config_v835 (example_env 1086) example_store) =
      [Probe ''https://xlayer.drpc.org'', Probe ''https://rpc.xlayer.okx.com'',
       Print (Activated 1000 1086),
       GetLogs 1000 1085, Print (Syncing 1000 1085 3), WriteCursor 1086, Sleep,
       Print SealingStarted,
       WriteJson SNAPSHOTS ''Supreme_Sealed_1700000001.json''
         (fst (supreme_seal (\<lambda>s. ''9f86d081884c7d65'') 1700000000
                 [example_event 0, example_event 1, example_event 2] 1000 1086)),
       IpfsAdd SNAPSHOTS ''Supreme_Sealed_1700000001.json'',
       Print (SealDone ''9F86D081884C7D65''),
       Print (IpfsCid ''QmExample'')]"
proof -
  have c: "snd (get_supreme_provider (is_connected (example_env 1086)) (rpc_nodes config_v835))
         = Some ''https://rpc.xlayer.okx.com''"
    by (simp add: example_connect example_start_v840)
  show ?thesis
    unfolding supreme_connected[OF c] supreme_epilogue_def
    by (simp add: example_start_v840 example_fields example_connect example_scan_v835 example_digest
        example_times strip_def is_space_def)
qed

lemma pattern_fails:
  "\<not> matches_name_pattern ''Supreme_Sealed_1700000001.json'' 1700000001 ''9F86D081884C7D65''"
  "\<not> matches_name_pattern ''Supreme_Sealed_1700000001.json'' 1700000000 ''9F86D081884C7D65''"
  by (simp_all add: matches_name_pattern_def example_times upt_conv_Cons suffix_Cons)

lemma pattern_holds:
  assumes "fp \<noteq> []"
  shows "matches_name_pattern (pfx @ ''_'' @ str_int t @ ''_'' @ take 8 fp @ ''.json'') t fp"
proof -
  let ?k = "min 8 (length fp)"
  have k: "?k \<in> set [1..<Suc (length fp)]" using assms by (cases fp) auto
  have "take ?k fp = take 8 fp" by (simp add: min_def)
  then have "suffix (''_'' @ str_int t @ ''_'' @ take ?k fp @ ''.json'')
               (pfx @ ''_'' @ str_int t @ ''_'' @ take 8 fp @ ''.json'')"
    by (simp only: suffix_def) blast
  with k show ?thesis unfolding matches_name_pattern_def list_ex_iff by blast
qed

lemma cycle_cert_writes:
  "cert_writes (snd (run_notary_cycle cfg e s)) = [] \<or>
   cert_writes (snd (run_notary_cycle cfg e s)) = cert_writes (cycle_epilogue cfg e s)"
proof (cases "snd (get_supreme_provider (is_connected e) (rpc_nodes cfg))")
  case None
  then show ?thesis by (simp add: cycle_fatal init_quiet connect_trace)
next
  case (Some url)
  have "cert_writes (fst (scan_loop Progress (block_step cfg) (get_logs e) (block_number e)
      (start_cursor cfg s) [])) = []"
    using scan_quiet by blast
  then show ?thesis by (simp add: cycle_connected[OF Some] init_quiet connect_trace)
qed

lemma supreme_cert_writes:
  "cert_writes (snd (run_supreme_notary cfg e s)) = [] \<or>
   cert_writes (snd (run_supreme_notary cfg e s)) = cert_writes (supreme_epilogue cfg e s)"
proof (cases "snd (get_supreme_provider (is_connected e) (rpc_nodes cfg))")
  case None
  then show ?thesis by (simp add: supreme_fatal init_quiet connect_trace)
next
  case (Some url)
  have "cert_writes (fst (scan_loop Syncing (block_step cfg) (get_logs e) (block_number e)
      (start_cursor cfg s) [])) = []"
    using scan_quiet by blast
  then show ?thesis by (simp add: supreme_connected[OF Some] init_quiet connect_trace)
qed

lemma seal_fingerprint_field:
  "attestation_field ''fingerprint'' (fst (seal_artifact H t B x y)) =
     Some (JStr (snd (seal_artifact H t B x y)))"
  by (simp add: seal_artifact_def attestation_field_def Let_def)

lemma cycle_epilogue_names:
  assumes "(d, n, c) \<in> set (cert_writes (cycle_epilogue cfg e s))"
  shows "d = SNAPSHOTS \<and>
     (\<exists>fp. attestation_field ''fingerprint'' c = Some (JStr fp) \<and>
        n = ''AOXC_CERT_'' @ str_int (time_time e 0) @ ''_'' @ take 8 fp @ ''.json'' \<and>
        (fp \<noteq> [] \<longrightarrow> matches_name_pattern n (time_time e 0) fp))"
proof -
  have p: "fp \<noteq> [] \<Longrightarrow>
      matches_name_pattern (''AOXC_CERT_'' @ str_int (time_time e 0) @ ''_'' @ take 8 fp @ ''.json'')
        (time_time e 0) fp" for fp
    using pattern_holds[of fp "''AOXC_CERT''" "time_time e 0"] by simp
  from assms p show ?thesis
    unfolding cycle_epilogue_def
    by (auto split: sum.splits if_splits simp: seal_fingerprint_field)
qed

lemma supreme_epilogue_names:
  assumes "(d, n, c) \<in> set (cert_writes (supreme_epilogue cfg e s))"
  shows "d = SNAPSHOTS \<and> n = ''Supreme_Sealed_'' @ str_int (time_time e 1) @ ''.json''"
  using assms unfolding supreme_epilogue_def by (auto split: sum.splits if_splits)

subsection \<open>Sealing is deterministic and blind to key order\<close>

lemma example_reordered: "same_upto_key_order (example_event i) (example_event_reordered i)"
  unfolding example_event_def example_event_reordered_def
proof (rule same_obj)
  show "list_all2 (rel_prod (=) same_upto_key_order)
          [(''logIndex'', JInt i),
           (''address'', JStr ''0x97Bdd1fD1CAF756e00eFD42eBa9406821465B365''),
           (''topics'', JArr [JStr ''0xddf252ad'']),
           (''removed'', JBool False)]
          [(''logIndex'', JInt i),
           (''address'', JStr ''0x97Bdd1fD1CAF756e00eFD42eBa9406821465B365''),
           (''topics'', JArr [JStr ''0xddf252ad'']),
           (''removed'', JBool False)]"
    by (simp add: same_refl)
qed simp

text \<open>
  Claim C3. Sealing the same batch twice gives the same fingerprint, whatever the clock
  reads at each call. A batch whose events list their keys in another order (at any
  depth, the events themselves in the same order) has the same fingerprint: the
  fingerprint is the upper-case hex digest of the key-sorted serialization of the batch.
  This holds for \<^verbatim>\<open>seal_artifact\<close> (v8.4.0) and for the inline seal of v8.3.5.
  The hypothesis \<open>keys_unique\<close> is the invariant of Python's dicts.
\<close>

theorem seal_fingerprint_deterministic:
  assumes "list_all2 same_upto_key_order B B'" and "list_all keys_unique B"
  shows "snd (seal_artifact H t B rs re) = snd (seal_artifact H t' B rs re) \<and>
         snd (seal_artifact H t B' rs re) = snd (seal_artifact H t B rs re) \<and>
         snd (seal_artifact H t B rs re) = upper (H (dumps (JArr B))) \<and>
         snd (supreme_seal H u B rs re) = snd (supreme_seal H u' B rs re) \<and>
         snd (supreme_seal H u B' rs re) = snd (supreme_seal H u B rs re) \<and>
         snd (supreme_seal H u B rs re) = upper (H (dumps (JArr B)))"
  using dumps_batch_key_order[OF assms]
  by (simp add: seal_artifact_def supreme_seal_def Let_def)

theorem seal_fingerprint_deterministic_witness:
  "list_all2 same_upto_key_order [example_event 0, example_event 1]
     [example_event_reordered 0, example_event_reordered 1] \<and>
   list_all keys_unique [example_event 0, example_event 1] \<and>
   snd (seal_artifact (\<lambda>s. s) ''2024-01-01T00:00:00''
          [example_event_reordered 0, example_event_reordered 1] 1000 1205) =
   snd (seal_artifact (\<lambda>s. s) ''2024-01-01T00:00:00''
          [example_event 0, example_event 1] 1000 1205) \<and>
   snd (supreme_seal (\<lambda>s. s) 1700000000
          [example_event_reordered 0, example_event_reordered 1] 1000 1205) =
   snd (supreme_seal (\<lambda>s. s) 1700000000 [example_event 0, example_event 1] 1000 1205)"
proof -
  have a: "list_all2 same_upto_key_order [example_event 0, example_event 1]
     [example_event_reordered 0, example_event_reordered 1]"
    by (simp add: example_reordered)
  have b: "list_all keys_unique [example_event 0, example_event 1]"
    by (simp add: example_event_def)
  show ?thesis
    using a b seal_fingerprint_deterministic[OF a b, of "\<lambda>s. s" "''2024-01-01T00:00:00''" 1000 1205
        "''2024-01-01T00:00:00''" 1700000000 1700000000]
    by simp
qed

subsection \<open>The two versions compute the same fingerprint\<close>

text \<open>
  Claim C10. For every batch the fingerprint of v8.3.5 and that of v8.4.0 are the same
  string, the upper-case hex digest of the key-sorted serialization, although the two
  attestations hold it under different keys (\<^verbatim>\<open>fingerprint_sha256\<close> and
  \<^verbatim>\<open>fingerprint\<close>), carry the time as an integer and as an ISO string, and name
  the batch \<^verbatim>\<open>raw_payload\<close> and \<^verbatim>\<open>payload\<close>.
\<close>

theorem fingerprint_same_in_both_versions:
  "snd (supreme_seal H unix_ts B last_block current_block) =
     snd (seal_artifact H utcnow B start_block end_block) \<and>
   snd (seal_artifact H utcnow B start_block end_block) = upper (H (dumps (JArr B))) \<and>
   attestation_field ''fingerprint'' (fst (seal_artifact H utcnow B start_block end_block)) =
     Some (JStr (upper (H (dumps (JArr B))))) \<and>
   attestation_field ''fingerprint_sha256''
     (fst (supreme_seal H unix_ts B last_block current_block)) =
     Some (JStr (upper (H (dumps (JArr B))))) \<and>
   attestation_field ''timestamp'' (fst (seal_artifact H utcnow B start_block end_block)) =
     Some (JStr utcnow) \<and>
   attestation_field ''unix_ts'' (fst (supreme_seal H unix_ts B last_block current_block)) =
     Some (JInt unix_ts) \<and>
   field ''payload'' (fst (seal_artifact H utcnow B start_block end_block)) = Some (JArr B) \<and>
   field ''raw_payload'' (fst (supreme_seal H unix_ts B last_block current_block)) = Some (JArr B)"
  by (simp add: seal_artifact_def supreme_seal_def attestation_field_def Let_def)

subsection \<open>Connecting: one pass over the endpoints\<close>

text \<open>
  Claim C9. When every endpoint of the list fails the probe (by answering false or by
  raising), the connector probes each entry of the list once, in list order, and falls
  out of the loop into \<^verbatim>\<open>sys.exit\<close>: the run ends with \<open>SystemExit\<close> having
  probed exactly the configured list and requested no logs. When the entry at index
  \<open>i\<close> (counted from 0) is the first to pass, the connector returns it after probing
  exactly the first \<open>i + 1\<close> entries.
\<close>

theorem connect_single_pass:
  "((\<forall>u\<in>set urls. pr u \<noteq> Connected) \<longrightarrow>
      get_supreme_provider pr urls = (map Probe urls, None) \<and>
      setup_ghost_rpc pr urls = (map Probe urls, None)) \<and>
   ((\<forall>u\<in>set (rpc_nodes cfg). is_connected e u \<noteq> Connected) \<longrightarrow>
      fst (run_notary_cycle cfg e s) = SystemExit \<and>
      probes (snd (run_notary_cycle cfg e s)) = rpc_nodes cfg \<and>
      requests (snd (run_notary_cycle cfg e s)) = [] \<and>
      fst (run_supreme_notary cfg e s) = SystemExit \<and>
      probes (snd (run_supreme_notary cfg e s)) = rpc_nodes cfg \<and>
      requests (snd (run_supreme_notary cfg e s)) = []) \<and>
   (i < length urls' \<and> pr' (urls' ! i) = Connected \<and> (\<forall>j<i. pr' (urls' ! j) \<noteq> Connected) \<longrightarrow>
      get_supreme_provider pr' urls' = (map Probe (take (Suc i) urls'), Some (urls' ! i)) \<and>
      setup_ghost_rpc pr' urls' = (map Probe (take (Suc i) urls'), Some (urls' ! i)))"
proof (intro conjI impI)
  assume f: "\<forall>u\<in>set urls. pr u \<noteq> Connected"
  show "get_supreme_provider pr urls = (map Probe urls, None)" using f by (rule connect_all_fail)
  then show "setup_ghost_rpc pr urls = (map Probe urls, None)" by (simp add: connect_same)
next
  assume f: "\<forall>u\<in>set (rpc_nodes cfg). is_connected e u \<noteq> Connected"
  have c: "get_supreme_provider (is_connected e) (rpc_nodes cfg) = (map Probe (rpc_nodes cfg), None)"
    using f by (rule connect_all_fail)
  have p: "probes (map Probe us) = us" for us by (induction us) simp_all
  have i: "probes (initialize_industrial_structure cfg s) = []"
    by (simp add: initialize_industrial_structure_def)
  show "fst (run_notary_cycle cfg e s) = SystemExit" using c by (simp add: cycle_fatal)
  show "probes (snd (run_notary_cycle cfg e s)) = rpc_nodes cfg" using c p i by (simp add: cycle_fatal)
  show "requests (snd (run_notary_cycle cfg e s)) = []"
    using c connect_trace(2)[of "is_connected e" "rpc_nodes cfg"] by (simp add: cycle_fatal init_quiet)
  show "fst (run_supreme_notary cfg e s) = SystemExit" using c by (simp add: supreme_fatal)
  show "probes (snd (run_supreme_notary cfg e s)) = rpc_nodes cfg" using c p i by (simp add: supreme_fatal)
  show "requests (snd (run_supreme_notary cfg e s)) = []"
    using c connect_trace(2)[of "is_connected e" "rpc_nodes cfg"] by (simp add: supreme_fatal init_quiet)
next
  assume a: "i < length urls' \<and> pr' (urls' ! i) = Connected \<and> (\<forall>j<i. pr' (urls' ! j) \<noteq> Connected)"
  then show g: "get_supreme_provider pr' urls' = (map Probe (take (Suc i) urls'), Some (urls' ! i))"
    by (simp add: connect_first_pass)
  then show "setup_ghost_rpc pr' urls' = (map Probe (take (Suc i) urls'), Some (urls' ! i))"
    by (simp add: connect_same)
qed

theorem connect_single_pass_witness:
  "get_supreme_provider (\<lambda>u. NotConnected) RPC_NODES = (map Probe RPC_NODES, None) \<and>
   fst (run_notary_cycle config_v840 (example_env 1205\<lparr>is_connected := \<lambda>u. NotConnected\<rparr>)
          example_store) = SystemExit \<and>
   probes (snd (run_supreme_notary config_v835
          (example_env 1205\<lparr>is_connected := \<lambda>u. NotConnected\<rparr>) example_store)) = RPC_NODES \<and>
   1 < length RPC_NODES \<and>
   is_connected (example_env 1205) (RPC_NODES ! 1) = Connected \<and>
   is_connected (example_env 1205) (RPC_NODES ! 0) = Raised \<and>
   setup_ghost_rpc (is_connected (example_env 1205)) RPC_NODES =
     ([Probe ''https://xlayer.drpc.org'', Probe ''https://rpc.xlayer.okx.com''],
      Some ''https://rpc.xlayer.okx.com'')"
  using connect_single_pass[of RPC_NODES "\<lambda>u. NotConnected" config_v840
      "example_env 1205\<lparr>is_connected := \<lambda>u. NotConnected\<rparr>" example_store 1
      RPC_NODES "is_connected (example_env 1205)"]
    connect_single_pass[of RPC_NODES "\<lambda>u. NotConnected" config_v835
      "example_env 1205\<lparr>is_connected := \<lambda>u. NotConnected\<rparr>" example_store 1
      RPC_NODES "is_connected (example_env 1205)"]
  by (simp add: RPC_NODES_def config_v840_def config_v835_def example_env_def)

subsection \<open>The cursor only advances\<close>

text \<open>
  Claim C5. In a run of either version, the values that the scan loop writes to the
  cursor file are strictly increasing and each is strictly greater than the cursor read
  at the start of the run (\<open>start_cursor\<close>): the list of the run's cursor writes is
  what the initialisation wrote followed by a list \<open>ws\<close> with
  \<open>start_cursor # ws\<close> strictly increasing. The initialisation writes nothing when
  the file exists, and the genesis block, which is then the value read, when it does not.
  Whenever \<^verbatim>\<open>get_logs\<close> is called for a range \<open>[a, b]\<close>, the cursor file holds
  \<open>a\<close>: the write for the previous range has happened before the next request.
\<close>

theorem cursor_only_advances:
  "(\<exists>ws. cursor_writes (snd (run_notary_cycle cfg e s)) =
          cursor_writes (initialize_industrial_structure cfg s) @ ws \<and>
        sorted_wrt (<) (start_cursor cfg s # ws)) \<and>
   (\<forall>pre a b post. snd (run_notary_cycle cfg e s) = pre @ GetLogs a b # post \<longrightarrow>
      cursor_file (exec pre s) = Some a) \<and>
   (\<exists>ws. cursor_writes (snd (run_supreme_notary cfg e s)) =
          cursor_writes (initialize_system cfg s) @ ws \<and>
        sorted_wrt (<) (start_cursor cfg s # ws)) \<and>
   (\<forall>pre a b post. snd (run_supreme_notary cfg e s) = pre @ GetLogs a b # post \<longrightarrow>
      cursor_file (exec pre s) = Some a) \<and>
   cursor_writes (initialize_industrial_structure cfg s) =
     (if cursor_file s = None then [genesis_block cfg] else []) \<and>
   cursor_writes (initialize_system cfg s) =
     (if cursor_file s = None then [genesis_block cfg] else [])"
  using cycle_cursor_facts[of cfg e s] supreme_cursor_facts[of cfg e s]
  by (simp add: init_same init_writes)

theorem cursor_only_advances_witness:
  "cursor_writes (snd (run_notary_cycle example_config (example_env 1205) example_store)) =
     [1101, 1202, 1206] \<and>
   snd (run_notary_cycle example_config (example_env 1205) example_store) =
     take 7 (snd (run_notary_cycle example_config (example_env 1205) example_store)) @
     GetLogs 1101 1201 #
     drop 8 (snd (run_notary_cycle example_config (example_env 1205) example_store)) \<and>
   cursor_file (exec (take 7 (snd (run_notary_cycle example_config (example_env 1205) example_store)))
     example_store) = Some 1101 \<and>
   cursor_file (exec (take 11 (snd (run_supreme_notary example_config (example_env 1205) example_store)))
     example_store) = Some 1202"
proof -
  let ?tr = "snd (run_notary_cycle example_config (example_env 1205) example_store)"
  let ?tr' = "snd (run_supreme_notary example_config (example_env 1205) example_store)"
  note th = cursor_only_advances[of example_config "example_env 1205" example_store]
  have a: "?tr = take 7 ?tr @ GetLogs 1101 1201 # drop 8 ?tr" by (simp add: example_cycle)
  have b: "?tr' = take 11 ?tr' @ GetLogs 1202 1205 # drop 12 ?tr'" by (simp add: example_supreme)
  from th a have c: "cursor_file (exec (take 7 ?tr) example_store) = Some 1101" by blast
  from th b have d: "cursor_file (exec (take 11 ?tr') example_store) = Some 1202" by blast
  have e: "cursor_writes ?tr = [1101, 1202, 1206]" by (simp add: example_cycle)
  from a c d e show ?thesis by blast
qed

subsection \<open>The end-to-end example\<close>

text \<open>
  Claim C4. With the cursor at 1000, the head at 1205 and a step of 100, where the
  first range returns three events and the other two none, a run of either version
  requests exactly the ranges [1000,1100], [1101,1201] and [1202,1205], leaves 1206 in
  the cursor file and writes exactly one certificate, into the snapshot directory, whose
  range field is \<^verbatim>\<open>1000-1205\<close>, whose payload is the three events and whose
  fingerprint is the upper-case digest of their key-sorted serialization.
\<close>

theorem end_to_end_example:
  assumes step: "block_step cfg = 100" and cur: "cursor_file s = Some 1000"
    and head: "block_number e = 1205"
    and reach: "\<exists>u\<in>set (rpc_nodes cfg). is_connected e u = Connected"
    and g1: "get_logs e 1000 1100 = Inr [e1, e2, e3]"
    and g2: "get_logs e 1101 1201 = Inr []"
    and g3: "get_logs e 1202 1205 = Inr []"
  shows "requests (snd (run_notary_cycle cfg e s)) = [(1000, 1100), (1101, 1201), (1202, 1205)] \<and>
         cursor_file (exec (snd (run_notary_cycle cfg e s)) s) = Some 1206 \<and>
         (\<exists>name cert. cert_writes (snd (run_notary_cycle cfg e s)) = [(SNAPSHOTS, name, cert)] \<and>
            attestation_field ''range'' cert = Some (JStr ''1000-1205'') \<and>
            attestation_field ''fingerprint'' cert =
              Some (JStr (upper (sha256_hexdigest e (dumps (JArr [e1, e2, e3]))))) \<and>
            field ''payload'' cert = Some (JArr [e1, e2, e3])) \<and>
         requests (snd (run_supreme_notary cfg e s)) = [(1000, 1100), (1101, 1201), (1202, 1205)] \<and>
         cursor_file (exec (snd (run_supreme_notary cfg e s)) s) = Some 1206 \<and>
         (\<exists>name cert. cert_writes (snd (run_supreme_notary cfg e s)) = [(SNAPSHOTS, name, cert)] \<and>
            attestation_field ''range'' cert = Some (JStr ''1000-1205'') \<and>
            attestation_field ''fingerprint_sha256'' cert =
              Some (JStr (upper (sha256_hexdigest e (dumps (JArr [e1, e2, e3]))))) \<and>
            field ''raw_payload'' cert = Some (JArr [e1, e2, e3]))"
proof -
  from connect_some[OF reach] obtain url where
    c: "snd (get_supreme_provider (is_connected e) (rpc_nodes cfg)) = Some url" by blast
  have st: "start_cursor cfg s = 1000" using cur by (simp add: start_cursor_def)
  have init: "initialize_industrial_structure cfg s = []"
    using cur by (simp add: initialize_industrial_structure_def)
  note sc = scan_three_ranges[of "get_logs e", OF g1 g2 g3]
  have q: "requests (fst (get_supreme_provider (is_connected e) (rpc_nodes cfg))) = []"
    "cursor_writes (fst (get_supreme_provider (is_connected e) (rpc_nodes cfg))) = []"
    "cert_writes (fst (get_supreme_provider (is_connected e) (rpc_nodes cfg))) = []"
    by (simp_all add: connect_trace)
  have ce: "cycle_epilogue cfg e s =
      [WriteJson SNAPSHOTS
         (''AOXC_CERT_'' @ str_int (time_time e 0) @ ''_'' @
          take 8 (snd (seal_artifact (sha256_hexdigest e) (utcnow_isoformat e) [e1, e2, e3] 1000 1205)) @
          ''.json'')
         (fst (seal_artifact (sha256_hexdigest e) (utcnow_isoformat e) [e1, e2, e3] 1000 1205)),
       Print (SealingComplete
         (snd (seal_artifact (sha256_hexdigest e) (utcnow_isoformat e) [e1, e2, e3] 1000 1205))),
       Print (ArtifactSaved
         (''AOXC_CERT_'' @ str_int (time_time e 0) @ ''_'' @
          take 8 (snd (seal_artifact (sha256_hexdigest e) (utcnow_isoformat e) [e1, e2, e3] 1000 1205)) @
          ''.json''))]"
    by (simp add: cycle_epilogue_def st step head sc)
  have cert1:
    "attestation_field ''range'' (fst (seal_artifact H t [e1, e2, e3] 1000 1205)) = Some (JStr ''1000-1205'')"
    "attestation_field ''fingerprint'' (fst (seal_artifact H t [e1, e2, e3] 1000 1205)) =
       Some (JStr (upper (H (dumps (JArr [e1, e2, e3])))))"
    "field ''payload'' (fst (seal_artifact H t [e1, e2, e3] 1000 1205)) = Some (JArr [e1, e2, e3])"
    for H t
    using range_text by (simp_all add: seal_artifact_def attestation_field_def Let_def)
  have cert2:
    "attestation_field ''range'' (fst (supreme_seal H u [e1, e2, e3] 1000 1205)) = Some (JStr ''1000-1205'')"
    "attestation_field ''fingerprint_sha256'' (fst (supreme_seal H u [e1, e2, e3] 1000 1205)) =
       Some (JStr (upper (H (dumps (JArr [e1, e2, e3])))))"
    "field ''raw_payload'' (fst (supreme_seal H u [e1, e2, e3] 1000 1205)) = Some (JArr [e1, e2, e3])"
    for H u
    using range_text by (simp_all add: supreme_seal_def attestation_field_def Let_def)
  have tr1: "snd (run_notary_cycle cfg e s) =
      (fst (get_supreme_provider (is_connected e) (rpc_nodes cfg)) @
       [Print (SessionBanner url 3 1000 1205)]) @
      fst (scan_loop Progress 100 (get_logs e) 1205 1000 []) @ cycle_epilogue cfg e s"
    using cycle_connected[OF c, of s] by (simp add: init st step head)
  have tr2: "snd (run_supreme_notary cfg e s) =
      (fst (get_supreme_provider (is_connected e) (rpc_nodes cfg)) @
       [Print (Activated 1000 1205)]) @
      fst (scan_loop Syncing 100 (get_logs e) 1205 1000 []) @ supreme_epilogue cfg e s"
    using supreme_connected[OF c, of s] by (simp add: init st step head)
  have se: "\<exists>tail. supreme_epilogue cfg e s =
      [Print SealingStarted,
       WriteJson SNAPSHOTS (''Supreme_Sealed_'' @ str_int (time_time e 1) @ ''.json'')
         (fst (supreme_seal (sha256_hexdigest e) (time_time e 0) [e1, e2, e3] 1000 1205)),
       IpfsAdd SNAPSHOTS (''Supreme_Sealed_'' @ str_int (time_time e 1) @ ''.json'')] @ tail \<and>
      cert_writes tail = [] \<and> cursor_writes tail = [] \<and> requests tail = []"
    by (simp add: supreme_epilogue_def st step head sc)
  then obtain tail where se':
    "supreme_epilogue cfg e s =
      [Print SealingStarted,
       WriteJson SNAPSHOTS (''Supreme_Sealed_'' @ str_int (time_time e 1) @ ''.json'')
         (fst (supreme_seal (sha256_hexdigest e) (time_time e 0) [e1, e2, e3] 1000 1205)),
       IpfsAdd SNAPSHOTS (''Supreme_Sealed_'' @ str_int (time_time e 1) @ ''.json'')] @ tail"
    "cert_writes tail = []" "cursor_writes tail = []" "requests tail = []" by blast
  have r1: "requests (snd (run_notary_cycle cfg e s)) = [(1000, 1100), (1101, 1201), (1202, 1205)]"
    unfolding tr1 ce by (simp add: sc q)
  have w1: "cursor_file (exec (snd (run_notary_cycle cfg e s)) s) = Some 1206"
    unfolding tr1 ce by (simp add: sc q cursor_file_exec)
  have c1: "cert_writes (snd (run_notary_cycle cfg e s)) =
      [(SNAPSHOTS,
        ''AOXC_CERT_'' @ str_int (time_time e 0) @ ''_'' @
          take 8 (snd (seal_artifact (sha256_hexdigest e) (utcnow_isoformat e) [e1, e2, e3] 1000 1205)) @
          ''.json'',
        fst (seal_artifact (sha256_hexdigest e) (utcnow_isoformat e) [e1, e2, e3] 1000 1205))]"
    unfolding tr1 ce by (simp add: sc q)
  have r2: "requests (snd (run_supreme_notary cfg e s)) = [(1000, 1100), (1101, 1201), (1202, 1205)]"
    unfolding tr2 se'(1) by (simp add: sc q se')
  have w2: "cursor_file (exec (snd (run_supreme_notary cfg e s)) s) = Some 1206"
    unfolding tr2 se'(1) by (simp add: sc q se' cursor_file_exec)
  have c2: "cert_writes (snd (run_supreme_notary cfg e s)) =
      [(SNAPSHOTS, ''Supreme_Sealed_'' @ str_int (time_time e 1) @ ''.json'',
        fst (supreme_seal (sha256_hexdigest e) (time_time e 0) [e1, e2, e3] 1000 1205))]"
    unfolding tr2 se'(1) by (simp add: sc q se')
  from r1 w1 c1 r2 w2 c2 cert1 cert2 show ?thesis by simp
qed

theorem end_to_end_example_witness:
  "block_step example_config = 100 \<and> cursor_file example_store = Some 1000 \<and>
   block_number (example_env 1205) = 1205 \<and>
   is_connected (example_env 1205) (RPC_NODES ! 1) = Connected \<and>
   get_logs (example_env 1205) 1000 1100 = Inr [example_event 0, example_event 1, example_event 2] \<and>
   get_logs (example_env 1205) 1101 1201 = Inr [] \<and>
   get_logs (example_env 1205) 1202 1205 = Inr [] \<and>
   requests (snd (run_notary_cycle example_config (example_env 1205) example_store)) =
     [(1000, 1100), (1101, 1201), (1202, 1205)] \<and>
   cursor_file (exec (snd (run_notary_cycle example_config (example_env 1205) example_store))
     example_store) = Some 1206 \<and>
   cursor_file (exec (snd (run_supreme_notary example_config (example_env 1205) example_store))
     example_store) = Some 1206"
proof -
  have h: "block_step example_config = 100" "cursor_file example_store = Some 1000"
    "block_number (example_env 1205) = 1205"
    "\<exists>u\<in>set (rpc_nodes example_config). is_connected (example_env 1205) u = Connected"
    "get_logs (example_env 1205) 1000 1100 = Inr [example_event 0, example_event 1, example_event 2]"
    "get_logs (example_env 1205) 1101 1201 = Inr []"
    "get_logs (example_env 1205) 1202 1205 = Inr []"
    by (simp_all add: example_config_def example_store_def example_env_def RPC_NODES_def)
  have p: "is_connected (example_env 1205) (RPC_NODES ! 1) = Connected"
    by (simp add: example_env_def RPC_NODES_def)
  from end_to_end_example[OF h] h p show ?thesis by simp
qed

subsection \<open>The cursor runs ahead of the seal\<close>

text \<open>
  Claim C1. In a run of either version whose first request succeeds, the effects of the
  run split into \<open>pre @ post\<close> where \<open>pre\<close> ends with the last cursor write of the
  run and holds no certificate write. In the state after \<open>pre\<close> the cursor file holds a
  value \<open>q\<close> beyond the cursor \<open>c\<close> the run started from while the set of files is
  that of the start of the run: the ranges requested so far, all within \<open>[c, q - 1]\<close>,
  are scanned and not sealed, so the cursor is ahead of everything sealed. When the
  process is killed there, whatever runs follow on these files, complete or killed
  themselves, request only ranges that start at \<open>q\<close> or later: the blocks of
  \<open>[c, q - 1]\<close> are never requested again.
\<close>

theorem eager_cursor_gap:
  assumes reach: "\<exists>u\<in>set (rpc_nodes cfg). is_connected e u = Connected"
    and lt: "start_cursor cfg s < block_number e"
    and first: "get_logs e (start_cursor cfg s)
                  (min (start_cursor cfg s + int (block_step cfg)) (block_number e)) = Inr logs"
  shows "(\<exists>pre post q. snd (run_notary_cycle cfg e s) = pre @ post \<and>
            cursor_writes pre \<noteq> [] \<and> last (cursor_writes pre) = q \<and>
            cursor_writes post = [] \<and> cert_writes pre = [] \<and>
            cursor_file (exec pre s) = Some q \<and> files (exec pre s) = files s \<and>
            start_cursor cfg s < q \<and> requests pre \<noteq> [] \<and>
            (\<forall>(a, b)\<in>set (requests pre). start_cursor cfg s \<le> a \<and> b < q) \<and>
            (\<forall>cfg' es. \<forall>(a, b)\<in>set (requests (lifetime run_notary_cycle cfg' es (exec pre s))).
               q \<le> a)) \<and>
         (\<exists>pre post q. snd (run_supreme_notary cfg e s) = pre @ post \<and>
            cursor_writes pre \<noteq> [] \<and> last (cursor_writes pre) = q \<and>
            cursor_writes post = [] \<and> cert_writes pre = [] \<and>
            cursor_file (exec pre s) = Some q \<and> files (exec pre s) = files s \<and>
            start_cursor cfg s < q \<and> requests pre \<noteq> [] \<and>
            (\<forall>(a, b)\<in>set (requests pre). start_cursor cfg s \<le> a \<and> b < q) \<and>
            (\<forall>cfg' es. \<forall>(a, b)\<in>set (requests (lifetime run_supreme_notary cfg' es (exec pre s))).
               q \<le> a))"
proof -
  from connect_some[OF reach] obtain url where
    c: "snd (get_supreme_provider (is_connected e) (rpc_nodes cfg)) = Some url" by blast
  from shape_gap[OF cycle_shape[OF c, of s] cycle_prologue_quiet(1,2,3) cycle_epilogue_quiet(2)
      lt first]
  obtain pre post q where g: "snd (run_notary_cycle cfg e s) = pre @ post"
    "cursor_writes pre \<noteq> []" "last (cursor_writes pre) = q" "cursor_writes post = []"
    "cert_writes pre = []" "cursor_file (exec pre s) = Some q" "files (exec pre s) = files s"
    "start_cursor cfg s < q" "requests pre \<noteq> []"
    "\<forall>(a, b)\<in>set (requests pre). start_cursor cfg s \<le> a \<and> b < q"
    by blast
  have l: "\<forall>cfg' es. \<forall>(a, b)\<in>set (requests (lifetime run_notary_cycle cfg' es (exec pre s))). q \<le> a"
    using cycle_lifetime_from[OF g(6)] by blast
  from shape_gap[OF supreme_shape[OF c, of s] cycle_prologue_quiet(1,2,3) supreme_epilogue_quiet(2)
      lt first]
  obtain pre' post' q' where g': "snd (run_supreme_notary cfg e s) = pre' @ post'"
    "cursor_writes pre' \<noteq> []" "last (cursor_writes pre') = q'" "cursor_writes post' = []"
    "cert_writes pre' = []" "cursor_file (exec pre' s) = Some q'" "files (exec pre' s) = files s"
    "start_cursor cfg s < q'" "requests pre' \<noteq> []"
    "\<forall>(a, b)\<in>set (requests pre'). start_cursor cfg s \<le> a \<and> b < q'"
    by blast
  have l': "\<forall>cfg' es. \<forall>(a, b)\<in>set (requests (lifetime run_supreme_notary cfg' es (exec pre' s))). q' \<le> a"
    using supreme_lifetime_from[OF g'(6)] by blast
  have A: "\<exists>pre post q. snd (run_notary_cycle cfg e s) = pre @ post \<and>
            cursor_writes pre \<noteq> [] \<and> last (cursor_writes pre) = q \<and>
            cursor_writes post = [] \<and> cert_writes pre = [] \<and>
            cursor_file (exec pre s) = Some q \<and> files (exec pre s) = files s \<and>
            start_cursor cfg s < q \<and> requests pre \<noteq> [] \<and>
            (\<forall>(a, b)\<in>set (requests pre). start_cursor cfg s \<le> a \<and> b < q) \<and>
            (\<forall>cfg' es. \<forall>(a, b)\<in>set (requests (lifetime run_notary_cycle cfg' es (exec pre s))).
               q \<le> a)"
    using g l by (intro exI[of _ pre] exI[of _ post] exI[of _ q]) (intro conjI; assumption)
  have B: "\<exists>pre post q. snd (run_supreme_notary cfg e s) = pre @ post \<and>
            cursor_writes pre \<noteq> [] \<and> last (cursor_writes pre) = q \<and>
            cursor_writes post = [] \<and> cert_writes pre = [] \<and>
            cursor_file (exec pre s) = Some q \<and> files (exec pre s) = files s \<and>
            start_cursor cfg s < q \<and> requests pre \<noteq> [] \<and>
            (\<forall>(a, b)\<in>set (requests pre). start_cursor cfg s \<le> a \<and> b < q) \<and>
            (\<forall>cfg' es. \<forall>(a, b)\<in>set (requests (lifetime run_supreme_notary cfg' es (exec pre s))).
               q \<le> a)"
    using g' l' by (intro exI[of _ pre'] exI[of _ post'] exI[of _ q']) (intro conjI; assumption)
  from A B show ?thesis by (rule conjI)
qed

theorem eager_cursor_gap_witness:
  "is_connected (example_env 1205) (RPC_NODES ! 1) = Connected \<and>
   start_cursor example_config example_store < block_number (example_env 1205) \<and>
   get_logs (example_env 1205) (start_cursor example_config example_store)
     (min (start_cursor example_config example_store + int (block_step example_config))
        (block_number (example_env 1205))) =
     Inr [example_event 0, example_event 1, example_event 2] \<and>
   (\<exists>pre post q. snd (run_notary_cycle example_config (example_env 1205) example_store) = pre @ post \<and>
      cursor_writes pre \<noteq> [] \<and> last (cursor_writes pre) = q \<and>
      cursor_writes post = [] \<and> cert_writes pre = [] \<and>
      cursor_file (exec pre example_store) = Some q \<and>
      files (exec pre example_store) = files example_store \<and>
      start_cursor example_config example_store < q \<and> requests pre \<noteq> [] \<and>
      (\<forall>(a, b)\<in>set (requests pre). start_cursor example_config example_store \<le> a \<and> b < q) \<and>
      (\<forall>cfg' es. \<forall>(a, b)\<in>set (requests (lifetime run_notary_cycle cfg' es (exec pre example_store))).
         q \<le> a))"
proof -
  have r: "\<exists>u\<in>set (rpc_nodes example_config). is_connected (example_env 1205) u = Connected"
    by (simp add: example_config_def example_env_def RPC_NODES_def)
  have p: "is_connected (example_env 1205) (RPC_NODES ! 1) = Connected"
    by (simp add: example_env_def RPC_NODES_def)
  have a: "start_cursor example_config example_store < block_number (example_env 1205)"
    by (simp add: example_start example_fields)
  have b: "get_logs (example_env 1205) (start_cursor example_config example_store)
     (min (start_cursor example_config example_store + int (block_step example_config))
        (block_number (example_env 1205))) =
     Inr [example_event 0, example_event 1, example_event 2]"
    by (simp add: example_start example_get_logs)
  from eager_cursor_gap[OF r a b] p a b show ?thesis by blast
qed

subsection \<open>An empty batch is not sealed\<close>

text \<open>
  Claim C6. When every requested range returns no event, a run of either version
  returns normally having written no certificate and started no publisher: the files are
  those of the start of the run, and the console shows the banner, one progress line with
  count 0 for each range and the no-new-data line, so the sealing code is never reached.
\<close>

theorem empty_batch_is_not_sealed:
  assumes reach: "\<exists>u\<in>set (rpc_nodes cfg). is_connected e u = Connected"
    and empty: "\<forall>(a, b)\<in>set (ranges (block_step cfg) (start_cursor cfg s) (block_number e)).
                  get_logs e a b = Inr []"
  shows "fst (run_notary_cycle cfg e s) = Returned \<and>
         requests (snd (run_notary_cycle cfg e s)) =
           ranges (block_step cfg) (start_cursor cfg s) (block_number e) \<and>
         cert_writes (snd (run_notary_cycle cfg e s)) = [] \<and>
         publishes (snd (run_notary_cycle cfg e s)) = [] \<and>
         files (exec (snd (run_notary_cycle cfg e s)) s) = files s \<and>
         (\<exists>url. printed (snd (run_notary_cycle cfg e s)) =
            SessionBanner url 3 (start_cursor cfg s) (block_number e) #
            map (\<lambda>(a, b). Progress a b 0)
              (ranges (block_step cfg) (start_cursor cfg s) (block_number e)) @
            [NoNewData]) \<and>
         fst (run_supreme_notary cfg e s) = Returned \<and>
         requests (snd (run_supreme_notary cfg e s)) =
           ranges (block_step cfg) (start_cursor cfg s) (block_number e) \<and>
         cert_writes (snd (run_supreme_notary cfg e s)) = [] \<and>
         publishes (snd (run_supreme_notary cfg e s)) = [] \<and>
         files (exec (snd (run_supreme_notary cfg e s)) s) = files s \<and>
         printed (snd (run_supreme_notary cfg e s)) =
            Activated (start_cursor cfg s) (block_number e) #
            map (\<lambda>(a, b). Syncing a b 0)
              (ranges (block_step cfg) (start_cursor cfg s) (block_number e)) @
            [NoNewDataFound (block_number e)]"
proof -
  from connect_some[OF reach] obtain url where
    c: "snd (get_supreme_provider (is_connected e) (rpc_nodes cfg)) = Some url" by blast
  let ?rs = "ranges (block_step cfg) (start_cursor cfg s) (block_number e)"
  let ?scan = "\<lambda>line. scan_loop line (block_step cfg) (get_logs e) (block_number e) (start_cursor cfg s) []"
  have sc: "snd (?scan line) = Inr []" "requests (fst (?scan line)) = ?rs"
    "printed (fst (?scan line)) = map (\<lambda>(a, b). line a b 0) ?rs"
    "cert_writes (fst (?scan line)) = []" "publishes (fst (?scan line)) = []" for line
    using scan_all_empty[OF empty, of line "[]"] scan_all_empty_printed[OF empty, of line "[]"]
      scan_quiet[of line "block_step cfg" "get_logs e" "block_number e" "start_cursor cfg s" "[]"]
    by simp_all
  have e1: "cycle_epilogue cfg e s = [Print NoNewData]" by (simp add: cycle_epilogue_def sc)
  have e2: "supreme_epilogue cfg e s = [Print (NoNewDataFound (block_number e))]"
    by (simp add: supreme_epilogue_def sc)
  have pq: "publishes (fst (get_supreme_provider (is_connected e) (rpc_nodes cfg))) = []"
    "cert_writes (fst (get_supreme_provider (is_connected e) (rpc_nodes cfg))) = []"
    "requests (fst (get_supreme_provider (is_connected e) (rpc_nodes cfg))) = []"
    "printed (fst (get_supreme_provider (is_connected e) (rpc_nodes cfg))) = []"
    by (simp_all add: connect_trace connect_printed)
  note t1 = cycle_connected[OF c, of s, unfolded e1]
  note t2 = supreme_connected[OF c, of s, unfolded e2]
  have 1: "fst (run_notary_cycle cfg e s) = Returned" using t1 by simp
  have 2: "requests (snd (run_notary_cycle cfg e s)) = ?rs" using t1 by (simp add: sc pq init_quiet)
  have 3: "cert_writes (snd (run_notary_cycle cfg e s)) = []" using t1 by (simp add: sc pq init_quiet)
  have 4: "publishes (snd (run_notary_cycle cfg e s)) = []" using t1 by (simp add: sc pq init_quiet)
  have 5: "files (exec (snd (run_notary_cycle cfg e s)) s) = files s" using 3 by (rule files_exec)
  have 6: "printed (snd (run_notary_cycle cfg e s)) =
            SessionBanner url 3 (start_cursor cfg s) (block_number e) #
            map (\<lambda>(a, b). Progress a b 0) ?rs @ [NoNewData]"
    using t1 by (simp add: sc pq init_printed)
  have 7: "fst (run_supreme_notary cfg e s) = Returned" using t2 by simp
  have 8: "requests (snd (run_supreme_notary cfg e s)) = ?rs" using t2 by (simp add: sc pq init_quiet)
  have 9: "cert_writes (snd (run_supreme_notary cfg e s)) = []" using t2 by (simp add: sc pq init_quiet)
  have 10: "publishes (snd (run_supreme_notary cfg e s)) = []" using t2 by (simp add: sc pq init_quiet)
  have 11: "files (exec (snd (run_supreme_notary cfg e s)) s) = files s" using 9 by (rule files_exec)
  have 12: "printed (snd (run_supreme_notary cfg e s)) =
            Activated (start_cursor cfg s) (block_number e) #
            map (\<lambda>(a, b). Syncing a b 0) ?rs @ [NoNewDataFound (block_number e)]"
    using t2 by (simp add: sc pq init_printed)
  from 1 2 3 4 5 6 7 8 9 10 11 12 show ?thesis by blast
qed

theorem empty_batch_is_not_sealed_witness:
  "is_connected (example_env 1205\<lparr>get_logs := \<lambda>a b. Inr []\<rparr>) (RPC_NODES ! 1) = Connected \<and>
   list_all (\<lambda>(a, b). get_logs (example_env 1205\<lparr>get_logs := \<lambda>a b. Inr []\<rparr>) a b = Inr [])
     (ranges (block_step example_config) (start_cursor example_config example_store)
        (block_number (example_env 1205\<lparr>get_logs := \<lambda>a b. Inr []\<rparr>))) \<and>
   fst (run_notary_cycle example_config (example_env 1205\<lparr>get_logs := \<lambda>a b. Inr []\<rparr>)
          example_store) = Returned \<and>
   requests (snd (run_notary_cycle example_config (example_env 1205\<lparr>get_logs := \<lambda>a b. Inr []\<rparr>)
          example_store)) = [(1000, 1100), (1101, 1201), (1202, 1205)] \<and>
   cert_writes (snd (run_notary_cycle example_config (example_env 1205\<lparr>get_logs := \<lambda>a b. Inr []\<rparr>)
          example_store)) = [] \<and>
   printed (snd (run_supreme_notary example_config (example_env 1205\<lparr>get_logs := \<lambda>a b. Inr []\<rparr>)
          example_store)) =
     [Activated 1000 1205, Syncing 1000 1100 0, Syncing 1101 1201 0, Syncing 1202 1205 0,
      NoNewDataFound 1205]"
proof -
  let ?e = "example_env 1205\<lparr>get_logs := \<lambda>a b. Inr []\<rparr>"
  have r: "\<exists>u\<in>set (rpc_nodes example_config). is_connected ?e u = Connected"
    by (simp add: example_config_def example_env_def RPC_NODES_def)
  have p: "is_connected ?e (RPC_NODES ! 1) = Connected"
    by (simp add: example_env_def RPC_NODES_def)
  have h: "block_number ?e = 1205" by (simp add: example_fields)
  have m: "\<forall>(a, b)\<in>set (ranges (block_step example_config) (start_cursor example_config example_store)
        (block_number ?e)). get_logs ?e a b = Inr []"
    by simp
  have rs: "ranges (block_step example_config) (start_cursor example_config example_store)
        (block_number ?e) = [(1000, 1100), (1101, 1201), (1202, 1205)]"
    using h by (simp add: example_start example_ranges)
  from empty_batch_is_not_sealed[OF r m] p show ?thesis
    unfolding rs h by (simp add: example_start example_ranges)
qed

subsection \<open>A failing request aborts the run\<close>

text \<open>
  Claim C7. When the request for the range at index \<open>k\<close> (counted from 0) raises and
  those before it succeeded, the run requests exactly the first \<open>k + 1\<close> ranges and
  no more, writes no certificate and starts no publisher, and the cursor file holds one
  past the upper bound of the range before the failing one (the start cursor when the
  first request fails). The exception is caught: the run returns normally, the batch
  is dropped with the process, and the last thing it does is print the error line with
  the text of the exception, \<^verbatim>\<open>[ERROR] System Integrity Breach: ...\<close> in v8.4.0 and
  \<^verbatim>\<open>[CRITICAL] Error: ...\<close> in v8.3.5.
\<close>

theorem rpc_failure_aborts_run:
  assumes reach: "\<exists>u\<in>set (rpc_nodes cfg). is_connected e u = Connected"
    and k: "k < length (ranges (block_step cfg) (start_cursor cfg s) (block_number e))"
    and before: "\<forall>i<k. \<exists>logs.
       get_logs e (fst (ranges (block_step cfg) (start_cursor cfg s) (block_number e) ! i))
                  (snd (ranges (block_step cfg) (start_cursor cfg s) (block_number e) ! i)) = Inr logs"
    and fails:
      "get_logs e (fst (ranges (block_step cfg) (start_cursor cfg s) (block_number e) ! k))
                  (snd (ranges (block_step cfg) (start_cursor cfg s) (block_number e) ! k)) = Inl err"
  shows "fst (run_notary_cycle cfg e s) = Returned \<and>
         requests (snd (run_notary_cycle cfg e s)) =
           take (Suc k) (ranges (block_step cfg) (start_cursor cfg s) (block_number e)) \<and>
         cert_writes (snd (run_notary_cycle cfg e s)) = [] \<and>
         publishes (snd (run_notary_cycle cfg e s)) = [] \<and>
         files (exec (snd (run_notary_cycle cfg e s)) s) = files s \<and>
         cursor_file (exec (snd (run_notary_cycle cfg e s)) s) =
           Some (if k = 0 then start_cursor cfg s
                 else snd (ranges (block_step cfg) (start_cursor cfg s) (block_number e) ! (k - 1)) + 1) \<and>
         last (snd (run_notary_cycle cfg e s)) = Print (IntegrityBreach err) \<and>
         fst (run_supreme_notary cfg e s) = Returned \<and>
         requests (snd (run_supreme_notary cfg e s)) =
           take (Suc k) (ranges (block_step cfg) (start_cursor cfg s) (block_number e)) \<and>
         cert_writes (snd (run_supreme_notary cfg e s)) = [] \<and>
         publishes (snd (run_supreme_notary cfg e s)) = [] \<and>
         files (exec (snd (run_supreme_notary cfg e s)) s) = files s \<and>
         cursor_file (exec (snd (run_supreme_notary cfg e s)) s) =
           Some (if k = 0 then start_cursor cfg s
                 else snd (ranges (block_step cfg) (start_cursor cfg s) (block_number e) ! (k - 1)) + 1) \<and>
         last (snd (run_supreme_notary cfg e s)) = Print (CriticalError err)"
proof -
  from connect_some[OF reach] obtain url where
    c: "snd (get_supreme_provider (is_connected e) (rpc_nodes cfg)) = Some url" by blast
  let ?rs = "ranges (block_step cfg) (start_cursor cfg s) (block_number e)"
  let ?scan = "\<lambda>line. scan_loop line (block_step cfg) (get_logs e) (block_number e) (start_cursor cfg s) []"
  let ?q = "if k = 0 then start_cursor cfg s else snd (?rs ! (k - 1)) + 1"
  have sc: "requests (fst (?scan line)) = take (Suc k) ?rs" "snd (?scan line) = Inl err"
    "last (start_cursor cfg s # cursor_writes (fst (?scan line))) = ?q"
    "cert_writes (fst (?scan line)) = []" "publishes (fst (?scan line)) = []" for line
    using scan_fails_at[where gl="get_logs e" and line=line and v="[]", OF k before fails]
      ranges_nth_start[OF k]
      scan_quiet[of line "block_step cfg" "get_logs e" "block_number e" "start_cursor cfg s" "[]"]
    by simp_all
  have e1: "cycle_epilogue cfg e s = [Print (IntegrityBreach err)]"
    by (simp add: cycle_epilogue_def sc)
  have e2: "supreme_epilogue cfg e s = [Print (CriticalError err)]"
    by (simp add: supreme_epilogue_def sc)
  have pq: "publishes (fst (get_supreme_provider (is_connected e) (rpc_nodes cfg))) = []"
    "cert_writes (fst (get_supreme_provider (is_connected e) (rpc_nodes cfg))) = []"
    "requests (fst (get_supreme_provider (is_connected e) (rpc_nodes cfg))) = []"
    by (simp_all add: connect_trace)
  note t1 = cycle_connected[OF c, of s, unfolded e1]
  note t2 = supreme_connected[OF c, of s, unfolded e2]
  have 1: "fst (run_notary_cycle cfg e s) = Returned" using t1 by simp
  have 2: "requests (snd (run_notary_cycle cfg e s)) = take (Suc k) ?rs"
    using t1 by (simp add: sc pq init_quiet)
  have 3: "cert_writes (snd (run_notary_cycle cfg e s)) = []" using t1 by (simp add: sc pq init_quiet)
  have 4: "publishes (snd (run_notary_cycle cfg e s)) = []" using t1 by (simp add: sc pq init_quiet)
  have 5: "files (exec (snd (run_notary_cycle cfg e s)) s) = files s" using 3 by (rule files_exec)
  have 6: "cursor_file (exec (snd (run_notary_cycle cfg e s)) s) = Some ?q"
    using shape_final_cursor[OF cycle_shape[OF c, of s] cycle_prologue_quiet(1) cycle_epilogue_quiet(2)]
    by (simp only: sc)
  have 7: "last (snd (run_notary_cycle cfg e s)) = Print (IntegrityBreach err)" using t1 by simp
  have 8: "fst (run_supreme_notary cfg e s) = Returned" using t2 by simp
  have 9: "requests (snd (run_supreme_notary cfg e s)) = take (Suc k) ?rs"
    using t2 by (simp add: sc pq init_quiet)
  have 10: "cert_writes (snd (run_supreme_notary cfg e s)) = []" using t2 by (simp add: sc pq init_quiet)
  have 11: "publishes (snd (run_supreme_notary cfg e s)) = []" using t2 by (simp add: sc pq init_quiet)
  have 12: "files (exec (snd (run_supreme_notary cfg e s)) s) = files s" using 10 by (rule files_exec)
  have 13: "cursor_file (exec (snd (run_supreme_notary cfg e s)) s) = Some ?q"
    using shape_final_cursor[OF supreme_shape[OF c, of s] cycle_prologue_quiet(1) supreme_epilogue_quiet(2)]
    by (simp only: sc)
  have 14: "last (snd (run_supreme_notary cfg e s)) = Print (CriticalError err)" using t2 by simp
  from 1 2 3 4 5 6 7 8 9 10 11 12 13 14 show ?thesis by blast
qed

theorem rpc_failure_aborts_run_witness:
  "is_connected (example_env 1205\<lparr>get_logs := \<lambda>a b. if a = 1000 then Inr [example_event 0]
       else Inl ''timeout''\<rparr>) (RPC_NODES ! 1) = Connected \<and>
   ranges (block_step example_config) (start_cursor example_config example_store) 1205 =
     [(1000, 1100), (1101, 1201), (1202, 1205)] \<and>
   requests (snd (run_notary_cycle example_config
      (example_env 1205\<lparr>get_logs := \<lambda>a b. if a = 1000 then Inr [example_event 0]
         else Inl ''timeout''\<rparr>) example_store)) = [(1000, 1100), (1101, 1201)] \<and>
   cursor_file (exec (snd (run_notary_cycle example_config
      (example_env 1205\<lparr>get_logs := \<lambda>a b. if a = 1000 then Inr [example_event 0]
         else Inl ''timeout''\<rparr>) example_store)) example_store) = Some 1101 \<and>
   cert_writes (snd (run_notary_cycle example_config
      (example_env 1205\<lparr>get_logs := \<lambda>a b. if a = 1000 then Inr [example_event 0]
         else Inl ''timeout''\<rparr>) example_store)) = [] \<and>
   last (snd (run_notary_cycle example_config
      (example_env 1205\<lparr>get_logs := \<lambda>a b. if a = 1000 then Inr [example_event 0]
         else Inl ''timeout''\<rparr>) example_store)) = Print (IntegrityBreach ''timeout'') \<and>
   last (snd (run_supreme_notary example_config
      (example_env 1205\<lparr>get_logs := \<lambda>a b. if a = 1000 then Inr [example_event 0]
         else Inl ''timeout''\<rparr>) example_store)) = Print (CriticalError ''timeout'')"
proof -
  let ?e = "example_env 1205\<lparr>get_logs := \<lambda>a b. if a = 1000 then Inr [example_event 0]
       else Inl ''timeout''\<rparr>"
  have r: "\<exists>u\<in>set (rpc_nodes example_config). is_connected ?e u = Connected"
    by (simp add: example_config_def example_env_def RPC_NODES_def)
  have p: "is_connected ?e (RPC_NODES ! 1) = Connected"
    by (simp add: example_env_def RPC_NODES_def)
  have h: "block_number ?e = 1205" by (simp add: example_fields)
  have rs: "ranges (block_step example_config) (start_cursor example_config example_store)
        (block_number ?e) = [(1000, 1100), (1101, 1201), (1202, 1205)]"
    using h by (simp add: example_start example_ranges)
  have k: "1 < length (ranges (block_step example_config) (start_cursor example_config example_store)
        (block_number ?e))"
    unfolding rs by simp
  have b: "\<forall>i<1. \<exists>logs. get_logs ?e
       (fst (ranges (block_step example_config) (start_cursor example_config example_store)
          (block_number ?e) ! i))
       (snd (ranges (block_step example_config) (start_cursor example_config example_store)
          (block_number ?e) ! i)) = Inr logs"
    unfolding rs by simp
  have f: "get_logs ?e
       (fst (ranges (block_step example_config) (start_cursor example_config example_store)
          (block_number ?e) ! 1))
       (snd (ranges (block_step example_config) (start_cursor example_config example_store)
          (block_number ?e) ! 1)) = Inl ''timeout''"
    unfolding rs by simp
  from rpc_failure_aborts_run[OF r k b f] p rs show ?thesis
    unfolding rs h by (simp add: example_start example_ranges)
qed

subsection \<open>The ranges of a scan and the last block\<close>

text \<open>
  What the loop requests when no request fails: the first range starts at the cursor,
  each next range starts one past the end of the one before, no range is wider than the
  step, and the last range ends at the head, or one block before it when the distance
  from the cursor to the head is a multiple of the step plus one.
\<close>

lemma requested_ranges_tiling:
  assumes "c < h" and "\<forall>(a, b)\<in>set (ranges step c h). \<exists>logs. gl a b = Inr logs"
  shows "requests (fst (scan_loop line step gl h c v)) = ranges step c h"
    and "fst (hd (ranges step c h)) = c"
    and "\<forall>i. Suc i < length (ranges step c h) \<longrightarrow>
           fst (ranges step c h ! Suc i) = snd (ranges step c h ! i) + 1"
    and "\<forall>(a, b)\<in>set (ranges step c h). a \<le> b \<and> b - a \<le> int step"
    and "snd (last (ranges step c h)) = (if (h - c) mod (int step + 1) = 0 then h - 1 else h)"
proof -
  show "requests (fst (scan_loop line step gl h c v)) = ranges step c h"
    using scan_all_ok[OF assms(2)] by simp
  show "fst (hd (ranges step c h)) = c" using assms(1) by (simp add: ranges_go)
  show "\<forall>i. Suc i < length (ranges step c h) \<longrightarrow>
           fst (ranges step c h ! Suc i) = snd (ranges step c h ! i) + 1"
    using ranges_contiguous by blast
  show "\<forall>(a, b)\<in>set (ranges step c h). a \<le> b \<and> b - a \<le> int step"
    using ranges_bounds by blast
  show "snd (last (ranges step c h)) = (if (h - c) mod (int step + 1) = 0 then h - 1 else h)"
    using assms(1) by (rule ranges_last)
qed

text \<open>
  Claim C2. The claim is that for every cursor \<open>C0\<close> below the head \<open>H\<close> the
  requested ranges tile \<open>[C0, H]\<close>, the last one ending at \<open>H\<close>. The loop test is
  \<^verbatim>\<open>pointer < current_head\<close> while the ranges are closed at both ends, so the loop
  stops with block \<open>H\<close> unrequested when the pointer lands on \<open>H\<close>. With the cursor
  at 1000 and the head at 1071, v8.4.0 (step 70) requests the single range [1000,1070]
  and leaves 1071 in the cursor file, yet its certificate attests the range
  \<^verbatim>\<open>1000-1071\<close>; v8.3.5 (step 85) does the same with the head at 1086.
\<close>

theorem last_block_not_scanned:
  "block_number (example_env 1071) = 1071 \<and>
   requests (snd (run_notary_cycle config_v840 (example_env 1071) example_store)) = [(1000, 1070)] \<and>
   cursor_file (exec (snd (run_notary_cycle config_v840 (example_env 1071) example_store))
     example_store) = Some 1071 \<and>
   map (\<lambda>(d, n, c). attestation_field ''range'' c)
     (cert_writes (snd (run_notary_cycle config_v840 (example_env 1071) example_store))) =
     [Some (JStr ''1000-1071'')] \<and>
   block_number (example_env 1086) = 1086 \<and>
   requests (snd (run_supreme_notary config_v835 (example_env 1086) example_store)) = [(1000, 1085)] \<and>
   cursor_file (exec (snd (run_supreme_notary config_v835 (example_env 1086) example_store))
     example_store) = Some 1086 \<and>
   map (\<lambda>(d, n, c). attestation_field ''range'' c)
     (cert_writes (snd (run_supreme_notary config_v835 (example_env 1086) example_store))) =
     [Some (JStr ''1000-1086'')]"
  using example_range_texts
  by (simp add: example_cycle_v840 example_supreme_v835 example_fields seal_artifact_def
      supreme_seal_def attestation_field_def Let_def)

subsection \<open>Names of the certificate files\<close>

text \<open>
  Claim C8, as far as it holds. Every certificate that a run of v8.4.0 writes goes to
  the snapshot directory under the name \<^verbatim>\<open>AOXC_CERT_<unixtime>_<fp8>.json\<close>, where
  \<^verbatim>\<open>fp8\<close> is the first eight characters of the fingerprint in the certificate; the
  name matches the pattern of the specification. Every certificate that a run of v8.3.5
  writes goes to the snapshot directory under the name
  \<^verbatim>\<open>Supreme_Sealed_<unixtime>.json\<close>, which is derived from the time alone.
\<close>

theorem certificate_file_names:
  "(\<forall>(d, n, c)\<in>set (cert_writes (snd (run_notary_cycle cfg e s))).
      d = SNAPSHOTS \<and>
      (\<exists>fp. attestation_field ''fingerprint'' c = Some (JStr fp) \<and>
         n = ''AOXC_CERT_'' @ str_int (time_time e 0) @ ''_'' @ take 8 fp @ ''.json'' \<and>
         (fp \<noteq> [] \<longrightarrow> matches_name_pattern n (time_time e 0) fp))) \<and>
   (\<forall>(d, n, c)\<in>set (cert_writes (snd (run_supreme_notary cfg e s))).
      d = SNAPSHOTS \<and> n = ''Supreme_Sealed_'' @ str_int (time_time e 1) @ ''.json'')"
proof (intro conjI ballI)
  fix x assume x: "x \<in> set (cert_writes (snd (run_notary_cycle cfg e s)))"
  obtain d n c where dnc: "x = (d, n, c)" by (cases x)
  from x dnc cycle_cert_writes[of cfg e s]
  have "(d, n, c) \<in> set (cert_writes (cycle_epilogue cfg e s))" by auto
  from cycle_epilogue_names[OF this] dnc
  show "case x of (d, n, c) \<Rightarrow> d = SNAPSHOTS \<and>
      (\<exists>fp. attestation_field ''fingerprint'' c = Some (JStr fp) \<and>
         n = ''AOXC_CERT_'' @ str_int (time_time e 0) @ ''_'' @ take 8 fp @ ''.json'' \<and>
         (fp \<noteq> [] \<longrightarrow> matches_name_pattern n (time_time e 0) fp))"
    by simp
next
  fix x assume x: "x \<in> set (cert_writes (snd (run_supreme_notary cfg e s)))"
  obtain d n c where dnc: "x = (d, n, c)" by (cases x)
  from x dnc supreme_cert_writes[of cfg e s]
  have "(d, n, c) \<in> set (cert_writes (supreme_epilogue cfg e s))" by auto
  from supreme_epilogue_names[OF this] dnc
  show "case x of (d, n, c) \<Rightarrow>
      d = SNAPSHOTS \<and> n = ''Supreme_Sealed_'' @ str_int (time_time e 1) @ ''.json''"
    by simp
qed

theorem certificate_file_names_witness:
  "cert_writes (snd (run_notary_cycle config_v840 (example_env 1071) example_store)) =
     [(SNAPSHOTS, ''AOXC_CERT_1700000000_9F86D081.json'',
       fst (seal_artifact (\<lambda>s. ''9f86d081884c7d65'') ''2024-01-01T00:00:00''
              [example_event 0, example_event 1, example_event 2] 1000 1071))] \<and>
   attestation_field ''fingerprint''
     (fst (seal_artifact (\<lambda>s. ''9f86d081884c7d65'') ''2024-01-01T00:00:00''
              [example_event 0, example_event 1, example_event 2] 1000 1071)) =
     Some (JStr ''9F86D081884C7D65'') \<and>
   matches_name_pattern ''AOXC_CERT_1700000000_9F86D081.json'' 1700000000 ''9F86D081884C7D65'' \<and>
   map (\<lambda>(d, n, c). (d, n))
     (cert_writes (snd (run_supreme_notary config_v835 (example_env 1086) example_store))) =
     [(SNAPSHOTS, ''Supreme_Sealed_1700000001.json'')]"
proof -
  let ?c = "fst (seal_artifact (\<lambda>s. ''9f86d081884c7d65'') ''2024-01-01T00:00:00''
              [example_event 0, example_event 1, example_event 2] 1000 1071)"
  have w: "cert_writes (snd (run_notary_cycle config_v840 (example_env 1071) example_store)) =
     [(SNAPSHOTS, ''AOXC_CERT_1700000000_9F86D081.json'', ?c)]"
    by (simp add: example_cycle_v840)
  have f: "attestation_field ''fingerprint'' ?c = Some (JStr ''9F86D081884C7D65'')"
    by (simp add: seal_fingerprint_field example_digest)
  have t: "time_time (example_env 1071) 0 = 1700000000" by (simp add: example_fields)
  from certificate_file_names[of config_v840 "example_env 1071" example_store] w f t
  have m: "matches_name_pattern ''AOXC_CERT_1700000000_9F86D081.json'' 1700000000 ''9F86D081884C7D65''"
    by auto
  have s: "map (\<lambda>(d, n, c). (d, n))
     (cert_writes (snd (run_supreme_notary config_v835 (example_env 1086) example_store))) =
     [(SNAPSHOTS, ''Supreme_Sealed_1700000001.json'')]"
    by (simp add: example_supreme_v835)
  from w f m s show ?thesis by blast
qed

text \<open>
  Claim C8 as stated fails for v8.3.5: the name of the file it writes holds no part of the
  fingerprint of the certificate and does not match the pattern, whichever of the two
  clock readings of the run is taken for the time.
\<close>

theorem certificate_name_without_fingerprint:
  "map (\<lambda>(d, n, c). (d, n, attestation_field ''fingerprint_sha256'' c))
     (cert_writes (snd (run_supreme_notary config_v835 (example_env 1086) example_store))) =
     [(SNAPSHOTS, ''Supreme_Sealed_1700000001.json'', Some (JStr ''9F86D081884C7D65''))] \<and>
   time_time (example_env 1086) 0 = 1700000000 \<and>
   time_time (example_env 1086) 1 = 1700000001 \<and>
   \<not> matches_name_pattern ''Supreme_Sealed_1700000001.json'' 1700000000 ''9F86D081884C7D65'' \<and>
   \<not> matches_name_pattern ''Supreme_Sealed_1700000001.json'' 1700000001 ''9F86D081884C7D65''"
  using pattern_fails
  by (simp add: example_supreme_v835 example_fields supreme_seal_def attestation_field_def Let_def
      upper_def upper_char_def)

end
